theory Spec2Isabelle
  imports Main
begin

section \<open>Values shared by the core actors\<close>

text \<open>
  The value held by a \<open>multitonKey\<close> field. The TypeScript type is \<open>string\<close>, but a
  private field declared without an initialiser (\<open>#multitonKey;\<close> in \<open>Notifier\<close>) holds
  \<open>undefined\<close> until it is assigned, and the \<open>facade\<close> getter compares it with \<open>null\<close>;
  a JavaScript \<open>Map\<close> accepts any of the three as a key.
\<close>

datatype key = Undefined | Null | Key string

text \<open>\<open>throw Error(msg)\<close>.\<close>

datatype error = Error string

text \<open>\<open>Notification\<close>: name, optional body, optional type.\<close>

datatype notification =
  Notification (getName: string) (getBody: "string option") (getType: "string option")

text \<open>
  Object identity, as compared by \<open>===\<close> in \<open>Observer.compareNotifyContext\<close>: the
  \<open>Controller\<close> of a core, or any other object (a mediator, a proxy) by its address.
\<close>

datatype ref = ControllerRef key | ObjectRef nat

text \<open>
  Where a command fails. Its constructor throws; its \<open>initializeNotifier\<close>, which a
  subclass may override, throws; the call of its \<open>execute\<close> throws, which an \<open>execute\<close> that
  is not an \<open>async\<close> method does when it fails before it returns its promise; or the
  promise that \<open>execute\<close> returns is rejected, which is how an \<open>async\<close> \<open>execute\<close>, as in
  \<open>SimpleCommand\<close> and \<open>MacroCommand\<close>, fails when its body throws.
\<close>

datatype stage = InConstructor | InInitializeNotifier | InCall | InBody

text \<open>
  A command class (\<open>CommandConstructor\<close>). The body of its \<open>execute\<close> is application code:
  the model keeps the outputs it produces between two suspension points (\<open>await\<close>), one
  list of outputs per synchronous segment, and the error with which the command fails, if
  any, with the place where it is thrown. An error of the body is thrown after the last
  segment.
\<close>

datatype commandClass =
  CommandClass (cname: string) (segments: "string list list")
    (failure: "(stage \<times> string) option")

text \<open>
  The error thrown to the caller of \<open>new\<close>, \<open>initializeNotifier\<close> or \<open>execute\<close>, and the
  error that rejects the promise returned by \<open>execute\<close>.
\<close>

definition thrown :: "commandClass \<Rightarrow> string option" where
  "thrown commandClass =
     (case failure commandClass of
        None \<Rightarrow> None
      | Some (InBody, e) \<Rightarrow> None
      | Some (st, e) \<Rightarrow> Some e)"

definition rejection :: "commandClass \<Rightarrow> string option" where
  "rejection commandClass =
     (case failure commandClass of
        Some (InBody, e) \<Rightarrow> Some e
      | _ \<Rightarrow> None)"

text \<open>
  What an observer's callback does when it is called, as a script: it produces an output,
  suspends at an \<open>await\<close>, throws, or calls back into the \<open>View\<close> to register or remove an
  observer. \<open>ExecuteCommand\<close> is the method \<open>Controller.executeCommand\<close>, the callback of the
  observer that \<open>Controller.registerCommand\<close> creates.
\<close>

datatype action =
    Emit string
  | Suspend
  | Throw string
  | RegisterObserver string observer
  | RemoveObserver string ref
and callback =
    Handler "action list"
  | ExecuteCommand
and observer =
    Observer (getNotifyMethod: callback) (getNotifyContext: ref)

text \<open>\<open>Observer.compareNotifyContext\<close>: \<open>return object === this.#context\<close>.\<close>

definition compareNotifyContext :: "observer \<Rightarrow> ref \<Rightarrow> bool" where
  "compareNotifyContext obs object \<longleftrightarrow> object = getNotifyContext obs"

text \<open>
  The calls the core makes to its collaborators, and what the collaborators produce, in
  the order in which they happen.
\<close>

datatype event =
    Begin observer notification
  | End observer
  | Output string
  | Constructed commandClass
  | Initialized commandClass key
  | Executed commandClass notification
  | OnRegister ref
  | OnRemove ref

text \<open>
  \<open>new commandClass()\<close>, \<open>initializeNotifier(key)\<close> and the call of \<open>execute(notification)\<close>,
  as far as they get: a throwing constructor creates no instance, and a throwing
  \<open>initializeNotifier\<close> leaves the instance unbound and \<open>execute\<close> uncalled.
\<close>

definition begun :: "commandClass \<Rightarrow> key \<Rightarrow> notification \<Rightarrow> event list" where
  "begun commandClass k note =
     (case failure commandClass of
        Some (InConstructor, e) \<Rightarrow> []
      | Some (InInitializeNotifier, e) \<Rightarrow> [Constructed commandClass]
      | _ \<Rightarrow> [Constructed commandClass, Initialized commandClass k,
               Executed commandClass note])"

section \<open>Model\<close>

text \<open>A \<open>Proxy\<close>: its identity, its name, its data and the key of \<open>Notifier\<close>.\<close>

record proxy =
  proxyRef :: ref
  getProxyName :: string
  getData :: "string option"
  proxyKey :: key

text \<open>
  A \<open>Model\<close> instance: \<open>proxyMap\<close>, \<open>multitonKey\<close>, and the hooks it has called on
  proxies so far.
\<close>

record model =
  proxyMap :: "string \<rightharpoonup> proxy"
  modelKey :: key
  hooks :: "event list"

text \<open>\<open>new Model(key)\<close> after the check of the instance map: an empty \<open>proxyMap\<close>.\<close>

definition Model_init :: "key \<Rightarrow> model" where
  "Model_init k = \<lparr>proxyMap = Map.empty, modelKey = k, hooks = []\<rparr>"

text \<open>
  \<open>registerProxy\<close>: \<open>proxy.initializeNotifier(this.multitonKey)\<close>,
  \<open>this.proxyMap.set(proxy.getProxyName(), proxy)\<close>, \<open>proxy.onRegister()\<close>.
\<close>

definition registerProxy :: "proxy \<Rightarrow> model \<Rightarrow> model" where
  "registerProxy p m =
     (let p' = p\<lparr>proxyKey := modelKey m\<rparr>
      in m\<lparr>proxyMap := (proxyMap m)(getProxyName p' \<mapsto> p'),
           hooks := hooks m @ [OnRegister (proxyRef p')]\<rparr>)"

text \<open>
  \<open>removeProxy\<close>: when the name is present, delete it and call \<open>onRemove\<close> on the proxy
  removed; return the proxy or \<open>undefined\<close>.
\<close>

definition removeProxy :: "string \<Rightarrow> model \<Rightarrow> proxy option \<times> model" where
  "removeProxy proxyName m =
     (case proxyMap m proxyName of
        None \<Rightarrow> (None, m)
      | Some p \<Rightarrow>
          (Some p, m\<lparr>proxyMap := (proxyMap m)(proxyName := None),
                      hooks := hooks m @ [OnRemove (proxyRef p)]\<rparr>))"

definition retrieveProxy :: "string \<Rightarrow> model \<Rightarrow> proxy option" where
  "retrieveProxy proxyName m = proxyMap m proxyName"

definition hasProxy :: "string \<Rightarrow> model \<Rightarrow> bool" where
  "hasProxy proxyName m \<longleftrightarrow> proxyName \<in> dom (proxyMap m)"

section \<open>View\<close>

text \<open>
  A mediator as the \<open>View\<close> sees it: its identity (the notify context of its observer),
  \<open>getMediatorName()\<close>, \<open>listNotificationInterests()\<close>, the script of its
  \<open>handleNotification\<close> and the key of \<open>Notifier\<close>.
\<close>

record mediator =
  mediatorRef :: ref
  getMediatorName :: string
  listNotificationInterests :: "string list"
  handleNotification :: "action list"
  mediatorKey :: key

text \<open>
  A \<open>View\<close> instance: \<open>#mediatorMap\<close>, \<open>#observerMap\<close>, \<open>#multitonKey\<close>, and the trace of
  what has happened at its collaborators.
\<close>

record view =
  mediatorMap :: "string \<rightharpoonup> mediator"
  observerMap :: "string \<rightharpoonup> observer list"
  multitonKey :: key
  trace :: "event list"

text \<open>
  A \<open>Controller\<close> instance together with the \<open>View\<close> it holds in its field \<open>view\<close>
  (\<open>this.view = View.getInstance(this.multitonKey)\<close>, so both have the same key): the
  fields of that \<open>View\<close>, and \<open>commandMap\<close>. The methods of \<open>View\<close> are defined on every
  state that has the fields of a \<open>View\<close>.
\<close>

record core = view +
  commandMap :: "string \<rightharpoonup> commandClass"

text \<open>\<open>new View(key)\<close> after the check of the instance map: both maps empty.\<close>

definition View_init :: "key \<Rightarrow> view" where
  "View_init k = \<lparr>mediatorMap = Map.empty, observerMap = Map.empty, multitonKey = k, trace = []\<rparr>"

text \<open>
  \<open>registerObserver\<close>: push onto the list of the name, or store a new one-element list.
\<close>

definition registerObserver :: "string \<Rightarrow> observer \<Rightarrow> 'a view_scheme \<Rightarrow> 'a view_scheme" where
  "registerObserver notificationName obs v =
     (case observerMap v notificationName of
        Some observers \<Rightarrow> v\<lparr>observerMap := (observerMap v)(notificationName \<mapsto> observers @ [obs])\<rparr>
      | None \<Rightarrow> v\<lparr>observerMap := (observerMap v)(notificationName \<mapsto> [obs])\<rparr>)"

text \<open>\<open>observers.splice(i, 1)\<close>.\<close>

definition splice1 :: "nat \<Rightarrow> 'a list \<Rightarrow> 'a list" where
  "splice1 i xs = take i xs @ drop (Suc i) xs"

text \<open>
  The loop of \<open>removeObserver\<close>: \<open>let i = observers.length; while (i--) { ... }\<close>. The first
  argument is the value of \<open>i\<close> that \<open>while\<close> tests: zero ends the loop, and the body sees
  the value decremented. The first match, counted from the end, is removed and the loop is
  left.
\<close>

fun removeObserver_loop :: "nat \<Rightarrow> ref \<Rightarrow> observer list \<Rightarrow> observer list" where
  "removeObserver_loop 0 notifyContext observers = observers"
| "removeObserver_loop (Suc i) notifyContext observers =
     (if compareNotifyContext (observers ! i) notifyContext then splice1 i observers
      else removeObserver_loop i notifyContext observers)"

text \<open>
  \<open>removeObserver\<close>: nothing when the name is absent; otherwise the loop, and the name is
  deleted from the map when its list has become empty.
\<close>

definition removeObserver :: "string \<Rightarrow> ref \<Rightarrow> 'a view_scheme \<Rightarrow> 'a view_scheme" where
  "removeObserver notificationName notifyContext v =
     (case observerMap v notificationName of
        None \<Rightarrow> v
      | Some observers \<Rightarrow>
          (let observers' = removeObserver_loop (length observers) notifyContext observers
           in if length observers' = 0
              then v\<lparr>observerMap := (observerMap v)(notificationName := None)\<rparr>
              else v\<lparr>observerMap := (observerMap v)(notificationName \<mapsto> observers')\<rparr>))"

text \<open>
  \<open>registerMediator\<close>: return at once when the name is registered; otherwise bind the
  mediator to the key, store it, register one observer (callback \<open>handleNotification\<close>,
  context the mediator) under each interest in turn, and call \<open>onRegister\<close>.
\<close>

definition registerMediator :: "mediator \<Rightarrow> 'a view_scheme \<Rightarrow> 'a view_scheme" where
  "registerMediator med v =
     (let name = getMediatorName med in
      if name \<in> dom (mediatorMap v) then v
      else
        let med' = med\<lparr>mediatorKey := multitonKey v\<rparr>;
            v1 = v\<lparr>mediatorMap := (mediatorMap v)(name \<mapsto> med')\<rparr>;
            interests = listNotificationInterests med';
            v2 = (if length interests > 0
                  then let obs = Observer (Handler (handleNotification med')) (mediatorRef med')
                       in foldl (\<lambda>w interest. registerObserver interest obs w) v1 interests
                  else v1)
        in v2\<lparr>trace := trace v2 @ [OnRegister (mediatorRef med')]\<rparr>)"

definition retrieveMediator :: "string \<Rightarrow> 'a view_scheme \<Rightarrow> mediator option" where
  "retrieveMediator mediatorName v = mediatorMap v mediatorName"

definition hasMediator :: "string \<Rightarrow> 'a view_scheme \<Rightarrow> bool" where
  "hasMediator mediatorName v \<longleftrightarrow> mediatorName \<in> dom (mediatorMap v)"

text \<open>
  \<open>removeMediator\<close>: \<open>undefined\<close> when the name is absent; otherwise the interests are
  popped from the end of the list the mediator returns, \<open>removeObserver\<close> is called for each
  with the mediator as context, the mediator is deleted from the map, and \<open>onRemove\<close> is
  called.
\<close>

definition removeMediator :: "string \<Rightarrow> 'a view_scheme \<Rightarrow> mediator option \<times> 'a view_scheme" where
  "removeMediator mediatorName v =
     (case mediatorMap v mediatorName of
        None \<Rightarrow> (None, v)
      | Some med \<Rightarrow>
          (let v1 = foldl (\<lambda>w interest. removeObserver interest (mediatorRef med) w) v
                      (rev (listNotificationInterests med));
               v2 = v1\<lparr>mediatorMap := (mediatorMap v1)(mediatorName := None)\<rparr>
           in (Some med, v2\<lparr>trace := trace v2 @ [OnRemove (mediatorRef med)]\<rparr>)))"

section \<open>Asynchronous calls\<close>

text \<open>
  How a promise ends, and where a call of an \<open>async\<close> function stands when control comes
  back to the caller: its script has run to its end or to an error, and nothing of it is
  left to run, or it is suspended, with the rest of the script to run after the suspension
  point.
\<close>

datatype completion = Resolved | Rejected string

datatype promise = Settled completion | Pending "action list"

text \<open>
  The synchronous part of a call: the script runs up to its first suspension point, its
  end, or the first error thrown.
\<close>

fun run :: "action list \<Rightarrow> 'a view_scheme \<Rightarrow> promise \<times> 'a view_scheme" where
  "run [] v = (Settled Resolved, v)"
| "run (Emit x # rest) v = run rest (v\<lparr>trace := trace v @ [Output x]\<rparr>)"
| "run (Suspend # rest) v = (Pending rest, v)"
| "run (Throw e # rest) v = (Settled (Rejected e), v)"
| "run (RegisterObserver n obs # rest) v = run rest (registerObserver n obs v)"
| "run (RemoveObserver n c # rest) v = run rest (removeObserver n c v)"

text \<open>
  The same script when the caller awaits it and nothing else runs in between: it resumes
  after each suspension point and runs to its end or to the first error thrown.
\<close>

fun run_awaited :: "action list \<Rightarrow> 'a view_scheme \<Rightarrow> completion \<times> 'a view_scheme" where
  "run_awaited [] v = (Resolved, v)"
| "run_awaited (Emit x # rest) v = run_awaited rest (v\<lparr>trace := trace v @ [Output x]\<rparr>)"
| "run_awaited (Suspend # rest) v = run_awaited rest v"
| "run_awaited (Throw e # rest) v = (Rejected e, v)"
| "run_awaited (RegisterObserver n obs # rest) v = run_awaited rest (registerObserver n obs v)"
| "run_awaited (RemoveObserver n c # rest) v = run_awaited rest (removeObserver n c v)"

text \<open>
  The body of a command's \<open>execute\<close> as a script: the outputs of each segment, a
  suspension point between two segments, and the final error.
\<close>

fun body :: "string list list \<Rightarrow> string option \<Rightarrow> action list" where
  "body [] fl = (case fl of None \<Rightarrow> [] | Some e \<Rightarrow> [Throw e])"
| "body [seg] fl = map Emit seg @ (case fl of None \<Rightarrow> [] | Some e \<Rightarrow> [Throw e])"
| "body (seg # segs) fl = map Emit seg @ Suspend # body segs fl"

section \<open>Controller\<close>

text \<open>
  \<open>new Controller(key)\<close> after the check of the instance map, on the view that
  \<open>View.getInstance(key)\<close> returned: \<open>this.multitonKey = key\<close>, an empty \<open>commandMap\<close>.
\<close>

definition Controller_init :: "key \<Rightarrow> view \<Rightarrow> core" where
  "Controller_init k v = view.extend (v\<lparr>multitonKey := k\<rparr>) \<lparr>commandMap = Map.empty\<rparr>"

text \<open>
  \<open>executeCommand\<close>, an \<open>async\<close> method: nothing when no command is mapped to the name of
  the notification; otherwise \<open>new commandClass()\<close>, \<open>initializeNotifier(this.multitonKey)\<close>
  and \<open>return command.execute(notification)\<close>. The method being \<open>async\<close>, an error thrown
  by one of the three rejects its promise.
\<close>

definition executeCommand :: "notification \<Rightarrow> core \<Rightarrow> promise \<times> core" where
  "executeCommand note s =
     (case commandMap s (getName note) of
        None \<Rightarrow> (Settled Resolved, s)
      | Some commandClass \<Rightarrow>
          (let s' = s\<lparr>trace := trace s @ begun commandClass (multitonKey s) note\<rparr>
           in case thrown commandClass of
                Some e \<Rightarrow> (Settled (Rejected e), s')
              | None \<Rightarrow> run (body (segments commandClass) (rejection commandClass)) s'))"

text \<open>\<open>await p\<close> with nothing else running: a pending promise runs to its end.\<close>

definition await :: "promise \<times> 'a view_scheme \<Rightarrow> completion \<times> 'a view_scheme" where
  "await r = (case fst r of Settled c \<Rightarrow> (c, snd r) | Pending rest \<Rightarrow> run_awaited rest (snd r))"

text \<open>
  \<open>registerCommand\<close>: only when the name has no command yet, register with the view an
  observer of callback \<open>this.executeCommand\<close> and context \<open>this\<close>; then store the class.
\<close>

definition registerCommand :: "string \<Rightarrow> commandClass \<Rightarrow> core \<Rightarrow> core" where
  "registerCommand notificationName commandClass s =
     (let s1 = (if notificationName \<notin> dom (commandMap s)
                then registerObserver notificationName
                       (Observer ExecuteCommand (ControllerRef (multitonKey s))) s
                else s)
      in s1\<lparr>commandMap := (commandMap s1)(notificationName \<mapsto> commandClass)\<rparr>)"

definition hasCommand :: "string \<Rightarrow> core \<Rightarrow> bool" where
  "hasCommand notificationName s \<longleftrightarrow> notificationName \<in> dom (commandMap s)"

text \<open>
  \<open>removeCommand\<close>: when a command is mapped, remove the observer of context \<open>this\<close> from the
  view and delete the mapping.
\<close>

definition removeCommand :: "string \<Rightarrow> core \<Rightarrow> core" where
  "removeCommand notificationName s =
     (if hasCommand notificationName s
      then let s1 = removeObserver notificationName (ControllerRef (multitonKey s)) s
           in s1\<lparr>commandMap := (commandMap s1)(notificationName := None)\<rparr>
      else s)"

section \<open>Delivery of a notification\<close>

text \<open>
  \<open>this.getNotifyMethod()?.call(this.getNotifyContext(), notification)\<close>: the call of the
  callback, up to its first suspension point.
\<close>

definition callNotifyMethod :: "observer \<Rightarrow> notification \<Rightarrow> core \<Rightarrow> promise \<times> core" where
  "callNotifyMethod obs note s =
     (case getNotifyMethod obs of
        Handler script \<Rightarrow> run script s
      | ExecuteCommand \<Rightarrow> executeCommand note s)"

text \<open>
  The trace records the end of an observer's callback, when it ends without an error.
\<close>

definition ended :: "observer \<Rightarrow> promise \<times> core \<Rightarrow> promise \<times> core" where
  "ended obs r =
     (case fst r of
        Settled Resolved \<Rightarrow> (fst r, (snd r)\<lparr>trace := trace (snd r) @ [End obs]\<rparr>)
      | _ \<Rightarrow> r)"

text \<open>
  \<open>Observer.notifyObserver\<close>, an \<open>async\<close> method whose body awaits the callback (the class
  \<open>Observer\<close> is read from the built bundle): what has happened when the call returns its
  promise to the caller.
\<close>

definition notifyObserver :: "observer \<Rightarrow> notification \<Rightarrow> core \<Rightarrow> promise \<times> core" where
  "notifyObserver obs note s =
     ended obs (callNotifyMethod obs note (s\<lparr>trace := trace s @ [Begin obs note]\<rparr>))"

text \<open>
  A pending \<open>notifyObserver\<close> resumed by the job queue: the rest of the callback runs to
  its next suspension point.
\<close>

definition resume :: "observer \<Rightarrow> action list \<Rightarrow> core \<Rightarrow> promise \<times> core" where
  "resume obs rest s = ended obs (run rest s)"

text \<open>\<open>await observer.notifyObserver(notification)\<close> with nothing else running.\<close>

definition notifyObserver_awaited :: "observer \<Rightarrow> notification \<Rightarrow> core \<Rightarrow> completion \<times> core" where
  "notifyObserver_awaited obs note s =
     (case notifyObserver obs note s of
        (Settled c, s') \<Rightarrow> (c, s')
      | (Pending rest, s') \<Rightarrow>
          (case run_awaited rest s' of
             (Resolved, s'') \<Rightarrow> (Resolved, s''\<lparr>trace := trace s'' @ [End obs]\<rparr>)
           | (Rejected e, s'') \<Rightarrow> (Rejected e, s'')))"

text \<open>
  The loop of \<open>View.notifyObservers\<close> in the TypeScript source of \<open>View\<close>, over the copy
  of the list: \<open>observer.notifyObserver(notification)\<close> is called and its promise is
  dropped, fulfilled, rejected or pending. The loop returns the view and the calls still
  pending, each with the rest of its callback.
\<close>

fun notifyObservers_loop ::
  "observer list \<Rightarrow> notification \<Rightarrow> core \<Rightarrow> core \<times> (observer \<times> action list) list" where
  "notifyObservers_loop [] note s = (s, [])"
| "notifyObservers_loop (obs # observers) note s =
     (case notifyObserver obs note s of
        (Pending rest, s') \<Rightarrow>
          (case notifyObservers_loop observers note s' of
             (s'', pending) \<Rightarrow> (s'', (obs, rest) # pending))
      | (Settled c, s') \<Rightarrow> notifyObservers_loop observers note s')"

text \<open>
  \<open>View.notifyObservers\<close> of the TypeScript source, a method that returns \<open>void\<close>: nothing
  when the name has no list; otherwise the loop over \<open>observersRef.slice(0)\<close>.
\<close>

definition notifyObservers ::
  "notification \<Rightarrow> core \<Rightarrow> core \<times> (observer \<times> action list) list" where
  "notifyObservers note s =
     (case observerMap s (getName note) of
        None \<Rightarrow> (s, [])
      | Some observersRef \<Rightarrow> notifyObservers_loop observersRef note s)"

text \<open>
  The loop of the built bundle, \<open>await observer.notifyObserver(notification)\<close>: the next
  observer is called when the promise of the one before is fulfilled, and a rejection
  leaves the loop.
\<close>

fun notifyObservers_awaiting_loop ::
  "observer list \<Rightarrow> notification \<Rightarrow> core \<Rightarrow> completion \<times> core" where
  "notifyObservers_awaiting_loop [] note s = (Resolved, s)"
| "notifyObservers_awaiting_loop (obs # observers) note s =
     (case notifyObserver_awaited obs note s of
        (Rejected e, s') \<Rightarrow> (Rejected e, s')
      | (Resolved, s') \<Rightarrow> notifyObservers_awaiting_loop observers note s')"

text \<open>
  \<open>View.notifyObservers\<close> of the built bundle, an \<open>async\<close> method, awaited by its caller
  with nothing else running.
\<close>

definition notifyObservers_bundle :: "notification \<Rightarrow> core \<Rightarrow> completion \<times> core" where
  "notifyObservers_bundle note s =
     (case observerMap s (getName note) of
        None \<Rightarrow> (Resolved, s)
      | Some observersRef \<Rightarrow> notifyObservers_awaiting_loop observersRef note s)"

section \<open>MacroCommand\<close>

text \<open>
  A \<open>MacroCommand\<close>: \<open>#subCommands\<close>, \<open>#sequentialExecution\<close>, and the key of \<open>Notifier\<close>.
\<close>

record macroCommand =
  subCommands :: "commandClass list"
  sequentialExecution :: bool
  macroKey :: key

text \<open>
  The constructor, \<open>sequentialExeuction\<close> being false by default; the key is unassigned
  until \<open>initializeNotifier\<close> is called.
\<close>

definition MacroCommand_new :: "bool \<Rightarrow> macroCommand" where
  "MacroCommand_new sequentialExeuction =
     \<lparr>subCommands = [], sequentialExecution = sequentialExeuction, macroKey = Undefined\<rparr>"

text \<open>\<open>initializeNotifier\<close>, inherited from \<open>Notifier\<close>.\<close>

definition MacroCommand_initializeNotifier :: "key \<Rightarrow> macroCommand \<Rightarrow> macroCommand" where
  "MacroCommand_initializeNotifier k m = m\<lparr>macroKey := k\<rparr>"

text \<open>\<open>addSubCommand\<close>: \<open>this.#subCommands.push(commandClass)\<close>.\<close>

definition addSubCommand :: "commandClass \<Rightarrow> macroCommand \<Rightarrow> macroCommand" where
  "addSubCommand commandClass m = m\<lparr>subCommands := subCommands m @ [commandClass]\<rparr>"

text \<open>
  The events of a macro command carry the position of the sub-command they belong to.
  A sub-command is created, bound to the key of the macro command, and its \<open>execute\<close> is
  called, as far as the three get.
\<close>

definition instantiate :: "nat \<Rightarrow> commandClass \<Rightarrow> key \<Rightarrow> notification \<Rightarrow> (nat \<times> event) list" where
  "instantiate i commandClass k note = map (Pair i) (begun commandClass k note)"

definition outputs :: "nat \<Rightarrow> string list \<Rightarrow> (nat \<times> event) list" where
  "outputs i seg = map (\<lambda>x. (i, Output x)) seg"

text \<open>
  How the use of a command ends for a caller that awaits it: it fails with its error,
  wherever the error is thrown, or it succeeds.
\<close>

definition outcome :: "commandClass \<Rightarrow> completion" where
  "outcome commandClass =
     (case failure commandClass of None \<Rightarrow> Resolved | Some (st, e) \<Rightarrow> Rejected e)"

text \<open>
  Parallel mode, the callback given to \<open>map\<close>, for each sub-command in turn: the
  sub-command is created and bound, and the call of \<open>execute\<close> runs its first segment and
  returns a promise; the segments after the first suspension point are still to run. When
  the constructor, \<open>initializeNotifier\<close> or the call of \<open>execute\<close> throws, the error leaves
  the callback and \<open>map\<close>: the sub-commands after it are not created. The result is the
  events so far, the sub-commands started, and the error thrown, if any.
\<close>

fun start_all ::
  "nat \<Rightarrow> commandClass list \<Rightarrow> key \<Rightarrow> notification \<Rightarrow>
     (nat \<times> event) list \<times> (nat \<times> string list list) list \<times> string option" where
  "start_all i [] k note = ([], [], None)"
| "start_all i (commandClass # rest) k note =
     (case thrown commandClass of
        Some e \<Rightarrow> (instantiate i commandClass k note, [], Some e)
      | None \<Rightarrow>
          (let (evs, tasks, err) = start_all (Suc i) rest k note
           in (instantiate i commandClass k note
                 @ outputs i (case segments commandClass of [] \<Rightarrow> [] | seg # _ \<Rightarrow> seg) @ evs,
               (i, case segments commandClass of [] \<Rightarrow> [] | _ # segs \<Rightarrow> segs) # tasks,
               err)))"

text \<open>The segments that the started sub-commands still have to run.\<close>

definition remaining :: "(nat \<times> string list list) list \<Rightarrow> nat" where
  "remaining tasks = sum_list (map (\<lambda>t. length (snd t)) tasks)"

text \<open>
  While \<open>Promise.allSettled\<close> is awaited, the suspended sub-commands resume in an order
  the macro command does not decide: the schedule names, at each step, which of the
  sub-commands still waiting runs its next segment (the first one when the schedule is
  exhausted). The gather ends when no sub-command has a segment left.
\<close>

function settle_all ::
  "nat list \<Rightarrow> (nat \<times> string list list) list \<Rightarrow> (nat \<times> event) list" where
  "settle_all sched tasks =
     (let waiting = filter (\<lambda>t. snd t \<noteq> []) tasks in
      if waiting = [] then []
      else
        let j = (case sched of [] \<Rightarrow> 0 | n # _ \<Rightarrow> n mod length waiting);
            i = fst (waiting ! j);
            segs = snd (waiting ! j)
        in outputs i (hd segs) @ settle_all (tl sched) (waiting[j := (i, tl segs)]))"
  by pat_completeness auto

lemma remaining_filter: "remaining (filter (\<lambda>t. snd t \<noteq> []) tasks) = remaining tasks"
  by (induction tasks) (auto simp: remaining_def)

lemma remaining_update:
  "j < length ts \<Longrightarrow> snd (ts ! j) \<noteq> [] \<Longrightarrow>
   remaining (ts[j := (i, tl (snd (ts ! j)))]) < remaining ts"
proof (induction ts arbitrary: j)
  case Nil
  then show ?case by simp
next
  case (Cons t ts)
  show ?case
  proof (cases j)
    case 0
    with Cons.prems show ?thesis by (cases "snd t") (auto simp: remaining_def)
  next
    case (Suc j')
    with Cons show ?thesis by (auto simp: remaining_def)
  qed
qed

lemma waiting_nth:
  "j < length (filter (\<lambda>t. snd t \<noteq> []) tasks) \<Longrightarrow>
   snd (filter (\<lambda>t. snd t \<noteq> []) tasks ! j) \<noteq> []"
  using nth_mem[of j "filter (\<lambda>t. snd t \<noteq> []) tasks"] by auto

termination settle_all
proof (relation "measure (\<lambda>(sched, tasks). remaining tasks)", goal_cases)
  case 1
  show ?case by simp
next
  case (2 sched tasks waiting j i segs)
  have jlt: "j < length waiting" using 2 by (auto split: list.splits)
  have ne: "snd (waiting ! j) \<noteq> []" using jlt 2(1) waiting_nth by blast
  have "remaining (waiting[j := (i, tl segs)]) < remaining waiting"
    using remaining_update[OF jlt ne, of i] 2 by simp
  then show ?case using 2(1) remaining_filter[of tasks] by simp
qed

text \<open>
  \<open>Promise.allSettled\<close>: one result for each promise, in the order of the array, and the
  events of the sub-commands until the last of them has settled.
\<close>

definition allSettled ::
  "nat list \<Rightarrow> commandClass list \<Rightarrow> (nat \<times> string list list) list \<Rightarrow>
     completion list \<times> (nat \<times> event) list" where
  "allSettled sched commandClasses tasks = (map outcome commandClasses, settle_all sched tasks)"

text \<open>
  Sequential mode, the \<open>for\<close> loop: each sub-command is created, bound and awaited before
  the next one; an error thrown, or the rejection of the promise awaited, leaves the loop
  and the method.
\<close>

fun execute_loop ::
  "nat \<Rightarrow> commandClass list \<Rightarrow> key \<Rightarrow> notification \<Rightarrow> completion \<times> (nat \<times> event) list" where
  "execute_loop i [] k note = (Resolved, [])"
| "execute_loop i (commandClass # rest) k note =
     (case thrown commandClass of
        Some e \<Rightarrow> (Rejected e, instantiate i commandClass k note)
      | None \<Rightarrow>
          (let evs = instantiate i commandClass k note
                       @ outputs i (concat (segments commandClass))
           in case rejection commandClass of
                Some e \<Rightarrow> (Rejected e, evs)
              | None \<Rightarrow>
                  (let (c, evs') = execute_loop (Suc i) rest k note in (c, evs @ evs'))))"

text \<open>
  \<open>MacroCommand.execute\<close>, an \<open>async\<close> method, awaited by its caller. In parallel mode,
  when \<open>map\<close> has returned the promises, the value of \<open>await Promise.allSettled(...)\<close> is
  not used and the method returns. When an error has left \<open>map\<close>, \<open>Promise.allSettled\<close> is
  not called and the error rejects the promise of \<open>execute\<close>; the sub-commands already
  started are not awaited by anyone, and resume as they would have.
\<close>

definition execute ::
  "nat list \<Rightarrow> notification \<Rightarrow> macroCommand \<Rightarrow> completion \<times> (nat \<times> event) list" where
  "execute sched note m =
     (if \<not> sequentialExecution m
      then
        let (evs, tasks, err) = start_all 0 (subCommands m) (macroKey m) note
        in case err of
             Some e \<Rightarrow> (Rejected e, evs @ settle_all sched tasks)
           | None \<Rightarrow>
               (let (results, evs') = allSettled sched (subCommands m) tasks
                in (Resolved, evs @ evs'))
      else execute_loop 0 (subCommands m) (macroKey m) note)"

section \<open>Multiton instance maps, Facade and Notifier\<close>

text \<open>
  A \<open>Facade\<close> instance: \<open>#model\<close>, \<open>#view\<close>, \<open>#controller\<close> (unset until the initialisers
  run) and \<open>#multitonKey\<close>.
\<close>

record facade =
  facadeModel :: "model option"
  facadeView :: "view option"
  facadeController :: "core option"
  facadeKey :: key

text \<open>The four static \<open>instanceMap\<close>s.\<close>

record instances =
  Model_instanceMap :: "key \<rightharpoonup> model"
  View_instanceMap :: "key \<rightharpoonup> view"
  Controller_instanceMap :: "key \<rightharpoonup> core"
  Facade_instanceMap :: "key \<rightharpoonup> facade"

definition no_instances :: instances where
  "no_instances = \<lparr>Model_instanceMap = Map.empty, View_instanceMap = Map.empty,
                    Controller_instanceMap = Map.empty, Facade_instanceMap = Map.empty\<rparr>"

definition Model_MULTITON_MSG :: string where
  "Model_MULTITON_MSG = ''Model instance for this multiton key already constructed!''"

definition View_MULTITON_MSG :: string where
  "View_MULTITON_MSG = ''View instance for this multiton key already constructed!''"

definition Controller_MULTITON_MSG :: string where
  "Controller_MULTITON_MSG = ''Controller instance for this multiton key already constructed!''"

definition Facade_MULTITON_MSG :: string where
  "Facade_MULTITON_MSG = ''Facade instance for this multiton key already constructed!''"

definition Notifier_MULTITON_MSG :: string where
  "Notifier_MULTITON_MSG = ''multitonKey for this Notifier not yet initialized!''"

text \<open>
  \<open>new Model(key)\<close>: throws when the key has an instance; otherwise stores the new
  instance under the key.
\<close>

definition Model_new :: "key \<Rightarrow> instances \<Rightarrow> error + model \<times> instances" where
  "Model_new k st =
     (if k \<in> dom (Model_instanceMap st) then Inl (Error Model_MULTITON_MSG)
      else
        let m = Model_init k
        in Inr (m, st\<lparr>Model_instanceMap := (Model_instanceMap st)(k \<mapsto> m)\<rparr>))"

text \<open>
  \<open>Model.getInstance\<close>: when the key has no instance, \<open>set(key, new Model(key))\<close>; then
  return the instance of the key.
\<close>

definition Model_getInstance :: "key \<Rightarrow> instances \<Rightarrow> error + model \<times> instances" where
  "Model_getInstance k st =
     (case Model_instanceMap st k of
        Some m \<Rightarrow> Inr (m, st)
      | None \<Rightarrow>
          (case Model_new k st of
             Inl e \<Rightarrow> Inl e
           | Inr (m, st') \<Rightarrow> Inr (m, st'\<lparr>Model_instanceMap := (Model_instanceMap st')(k \<mapsto> m)\<rparr>)))"

definition Model_removeModel :: "key \<Rightarrow> instances \<Rightarrow> instances" where
  "Model_removeModel k st = st\<lparr>Model_instanceMap := (Model_instanceMap st)(k := None)\<rparr>"

definition View_new :: "key \<Rightarrow> instances \<Rightarrow> error + view \<times> instances" where
  "View_new k st =
     (if k \<in> dom (View_instanceMap st) then Inl (Error View_MULTITON_MSG)
      else
        let v = View_init k
        in Inr (v, st\<lparr>View_instanceMap := (View_instanceMap st)(k \<mapsto> v)\<rparr>))"

definition View_getInstance :: "key \<Rightarrow> instances \<Rightarrow> error + view \<times> instances" where
  "View_getInstance k st =
     (case View_instanceMap st k of
        Some v \<Rightarrow> Inr (v, st)
      | None \<Rightarrow>
          (case View_new k st of
             Inl e \<Rightarrow> Inl e
           | Inr (v, st') \<Rightarrow> Inr (v, st'\<lparr>View_instanceMap := (View_instanceMap st')(k \<mapsto> v)\<rparr>)))"

definition View_removeView :: "key \<Rightarrow> instances \<Rightarrow> instances" where
  "View_removeView k st = st\<lparr>View_instanceMap := (View_instanceMap st)(k := None)\<rparr>"

text \<open>
  \<open>new Controller(key)\<close>: throws when the key has an instance; otherwise stores the new
  instance, and \<open>initializeController\<close> fetches the view of the key, which creates it when
  it is missing.
\<close>

definition Controller_new :: "key \<Rightarrow> instances \<Rightarrow> error + core \<times> instances" where
  "Controller_new k st =
     (if k \<in> dom (Controller_instanceMap st) then Inl (Error Controller_MULTITON_MSG)
      else
        case View_getInstance k st of
          Inl e \<Rightarrow> Inl e
        | Inr (v, st') \<Rightarrow>
            (let c = Controller_init k v
             in Inr (c, st'\<lparr>Controller_instanceMap := (Controller_instanceMap st')(k \<mapsto> c)\<rparr>)))"

definition Controller_getInstance :: "key \<Rightarrow> instances \<Rightarrow> error + core \<times> instances" where
  "Controller_getInstance k st =
     (case Controller_instanceMap st k of
        Some c \<Rightarrow> Inr (c, st)
      | None \<Rightarrow>
          (case Controller_new k st of
             Inl e \<Rightarrow> Inl e
           | Inr (c, st') \<Rightarrow>
               Inr (c, st'\<lparr>Controller_instanceMap := (Controller_instanceMap st')(k \<mapsto> c)\<rparr>)))"

definition Controller_removeController :: "key \<Rightarrow> instances \<Rightarrow> instances" where
  "Controller_removeController k st =
     st\<lparr>Controller_instanceMap := (Controller_instanceMap st)(k := None)\<rparr>"

text \<open>
  The initialisers of \<open>Facade\<close>: each fetches its actor when the field is not set yet.
\<close>

definition initializeModel :: "facade \<Rightarrow> instances \<Rightarrow> error + facade \<times> instances" where
  "initializeModel f st =
     (case facadeModel f of
        Some m \<Rightarrow> Inr (f, st)
      | None \<Rightarrow>
          (case Model_getInstance (facadeKey f) st of
             Inl e \<Rightarrow> Inl e
           | Inr (m, st') \<Rightarrow> Inr (f\<lparr>facadeModel := Some m\<rparr>, st')))"

definition initializeController :: "facade \<Rightarrow> instances \<Rightarrow> error + facade \<times> instances" where
  "initializeController f st =
     (case facadeController f of
        Some c \<Rightarrow> Inr (f, st)
      | None \<Rightarrow>
          (case Controller_getInstance (facadeKey f) st of
             Inl e \<Rightarrow> Inl e
           | Inr (c, st') \<Rightarrow> Inr (f\<lparr>facadeController := Some c\<rparr>, st')))"

definition initializeView :: "facade \<Rightarrow> instances \<Rightarrow> error + facade \<times> instances" where
  "initializeView f st =
     (case facadeView f of
        Some v \<Rightarrow> Inr (f, st)
      | None \<Rightarrow>
          (case View_getInstance (facadeKey f) st of
             Inl e \<Rightarrow> Inl e
           | Inr (v, st') \<Rightarrow> Inr (f\<lparr>facadeView := Some v\<rparr>, st')))"

text \<open>\<open>initializeFacade\<close>: the model, the controller, the view, in this order.\<close>

definition initializeFacade :: "facade \<Rightarrow> instances \<Rightarrow> error + facade \<times> instances" where
  "initializeFacade f st =
     (case initializeModel f st of
        Inl e \<Rightarrow> Inl e
      | Inr (f1, st1) \<Rightarrow>
          (case initializeController f1 st1 of
             Inl e \<Rightarrow> Inl e
           | Inr (f2, st2) \<Rightarrow> initializeView f2 st2))"

text \<open>
  \<open>new Facade(key)\<close>: throws when the key has an instance; otherwise binds the key, stores
  the instance and initialises it. The map holds the object itself, so the entry of the
  key shows the fields that the initialisers have set.
\<close>

definition Facade_new :: "key \<Rightarrow> instances \<Rightarrow> error + facade \<times> instances" where
  "Facade_new k st =
     (if k \<in> dom (Facade_instanceMap st) then Inl (Error Facade_MULTITON_MSG)
      else
        let f = \<lparr>facadeModel = None, facadeView = None, facadeController = None, facadeKey = k\<rparr>;
            st0 = st\<lparr>Facade_instanceMap := (Facade_instanceMap st)(k \<mapsto> f)\<rparr>
        in case initializeFacade f st0 of
             Inl e \<Rightarrow> Inl e
           | Inr (f', st') \<Rightarrow> Inr (f', st'\<lparr>Facade_instanceMap := (Facade_instanceMap st')(k \<mapsto> f')\<rparr>))"

definition Facade_getInstance :: "key \<Rightarrow> instances \<Rightarrow> error + facade \<times> instances" where
  "Facade_getInstance k st =
     (case Facade_instanceMap st k of
        Some f \<Rightarrow> Inr (f, st)
      | None \<Rightarrow>
          (case Facade_new k st of
             Inl e \<Rightarrow> Inl e
           | Inr (f, st') \<Rightarrow> Inr (f, st'\<lparr>Facade_instanceMap := (Facade_instanceMap st')(k \<mapsto> f)\<rparr>)))"

definition Facade_hasCore :: "key \<Rightarrow> instances \<Rightarrow> bool" where
  "Facade_hasCore k st \<longleftrightarrow> k \<in> dom (Facade_instanceMap st)"

text \<open>
  \<open>Facade.removeCore\<close>: return when the key has no facade; otherwise remove the model, the
  view and the controller of the key, then the facade.
\<close>

definition Facade_removeCore :: "key \<Rightarrow> instances \<Rightarrow> instances" where
  "Facade_removeCore k st =
     (if k \<notin> dom (Facade_instanceMap st) then st
      else
        let st1 = Controller_removeController k (View_removeView k (Model_removeModel k st))
        in st1\<lparr>Facade_instanceMap := (Facade_instanceMap st1)(k := None)\<rparr>)"

text \<open>
  A \<open>Notifier\<close>: the field \<open>#multitonKey\<close>, declared without an initialiser, so a new
  notifier holds \<open>undefined\<close>.
\<close>

record notifier =
  notifierKey :: key

definition Notifier_new :: notifier where
  "Notifier_new = \<lparr>notifierKey = Undefined\<rparr>"

definition initializeNotifier :: "key \<Rightarrow> notifier \<Rightarrow> notifier" where
  "initializeNotifier k n = n\<lparr>notifierKey := k\<rparr>"

text \<open>
  The getter \<open>facade\<close>: \<open>if (this.#multitonKey === null) throw Error(Notifier.MULTITON_MSG)\<close>,
  then \<open>return Facade.getInstance(this.#multitonKey)\<close>.
\<close>

definition Notifier_facade :: "notifier \<Rightarrow> instances \<Rightarrow> error + facade \<times> instances" where
  "Notifier_facade n st =
     (if notifierKey n = Null then Inl (Error Notifier_MULTITON_MSG)
      else Facade_getInstance (notifierKey n) st)"

section \<open>Notions used in the properties\<close>

text \<open>
  The invariant of the observer map: no name is mapped to an empty list.
\<close>

definition view_inv :: "'a view_scheme \<Rightarrow> bool" where
  "view_inv v \<longleftrightarrow> (\<forall>n. observerMap v n \<noteq> Some [])"

text \<open>The observers whose callbacks have been called, in the order of the calls.\<close>

fun invoked :: "event list \<Rightarrow> observer list" where
  "invoked [] = []"
| "invoked (Begin obs ntf # evs) = obs # invoked evs"
| "invoked (ev # evs) = invoked evs"

text \<open>The beginnings and ends of callbacks, in the order in which they happened.\<close>

fun calls :: "event list \<Rightarrow> event list" where
  "calls [] = []"
| "calls (Begin obs ntf # evs) = Begin obs ntf # calls evs"
| "calls (End obs # evs) = End obs # calls evs"
| "calls (ev # evs) = calls evs"

text \<open>The observers registered under the name of a notification.\<close>

definition snapshot :: "notification \<Rightarrow> 'a view_scheme \<Rightarrow> observer list" where
  "snapshot ntf v = (case observerMap v (getName ntf) of None \<Rightarrow> [] | Some observers \<Rightarrow> observers)"

text \<open>
  The number of observers registered under a name whose notify context is a given object.
\<close>

definition subscribed :: "ref \<Rightarrow> string \<Rightarrow> 'a view_scheme \<Rightarrow> nat" where
  "subscribed c n v =
     length (filter (\<lambda>obs. compareNotifyContext obs c)
       (case observerMap v n of None \<Rightarrow> [] | Some observers \<Rightarrow> observers))"

text \<open>
  The states of a controller and its view that the methods of \<open>Controller\<close> and \<open>View\<close>
  produce from a new core, when the code outside the controller does not pass the
  controller itself as a notify context: other objects register and remove their own
  observers, mediators are registered and removed, and anything may have been traced.
\<close>

inductive reachable :: "core \<Rightarrow> bool" where
  reachable_init: "reachable (Controller_init k (View_init k))"
| reachable_registerCommand: "reachable s \<Longrightarrow> reachable (registerCommand n c s)"
| reachable_removeCommand: "reachable s \<Longrightarrow> reachable (removeCommand n s)"
| reachable_registerObserver:
    "reachable s \<Longrightarrow> getNotifyContext obs \<noteq> ControllerRef (multitonKey s) \<Longrightarrow>
     reachable (registerObserver n obs s)"
| reachable_removeObserver:
    "reachable s \<Longrightarrow> c \<noteq> ControllerRef (multitonKey s) \<Longrightarrow> reachable (removeObserver n c s)"
| reachable_registerMediator:
    "reachable s \<Longrightarrow> mediatorRef med \<noteq> ControllerRef (multitonKey s) \<Longrightarrow>
     reachable (registerMediator med s)"
| reachable_removeMediator: "reachable s \<Longrightarrow> reachable (snd (removeMediator n s))"
| reachable_trace: "reachable s \<Longrightarrow> reachable (s\<lparr>trace := t\<rparr>)"

text \<open>
  In such a state the controller has one observer under each name that has a command, and
  none under any other name; no mediator is the controller.
\<close>

definition controller_inv :: "core \<Rightarrow> bool" where
  "controller_inv s \<longleftrightarrow>
     (\<forall>n. subscribed (ControllerRef (multitonKey s)) n s = (if n \<in> dom (commandMap s) then 1 else 0))
     \<and> (\<forall>n med. mediatorMap s n = Some med \<longrightarrow> mediatorRef med \<noteq> ControllerRef (multitonKey s))"

text \<open>
  The complete run of a command: it is created, bound and called, as far as the three
  get, and when none of them throws it produces the outputs of all its segments.
\<close>

definition whole :: "commandClass \<Rightarrow> key \<Rightarrow> notification \<Rightarrow> event list" where
  "whole commandClass k ntf =
     begun commandClass k ntf
       @ (case thrown commandClass of
            None \<Rightarrow> map Output (concat (segments commandClass))
          | Some e \<Rightarrow> [])"

text \<open>
  The complete run of the sub-command at one position, and the runs of a list of
  sub-commands one after the other.
\<close>

definition whole_run :: "nat \<Rightarrow> commandClass \<Rightarrow> key \<Rightarrow> notification \<Rightarrow> (nat \<times> event) list" where
  "whole_run i commandClass k ntf =
     instantiate i commandClass k ntf
       @ (case thrown commandClass of
            None \<Rightarrow> outputs i (concat (segments commandClass))
          | Some e \<Rightarrow> [])"

fun in_series :: "nat \<Rightarrow> commandClass list \<Rightarrow> key \<Rightarrow> notification \<Rightarrow> (nat \<times> event) list" where
  "in_series i [] k ntf = []"
| "in_series i (commandClass # rest) k ntf = whole_run i commandClass k ntf @ in_series (Suc i) rest k ntf"

text \<open>The events of the sub-command at one position.\<close>

definition of_sub :: "nat \<Rightarrow> (nat \<times> event) list \<Rightarrow> (nat \<times> event) list" where
  "of_sub j evs = filter (\<lambda>ev. fst ev = j) evs"

text \<open>What the started sub-command at one position still has to output.\<close>

fun todo :: "(nat \<times> string list list) list \<Rightarrow> nat \<Rightarrow> (nat \<times> event) list" where
  "todo [] j = []"
| "todo ((i, segs) # tasks) j = (if i = j then outputs j (concat segs) else todo tasks j)"

section \<open>Example values\<close>

definition score0 :: proxy where
  "score0 = \<lparr>proxyRef = ObjectRef 1, getProxyName = ''score'', getData = Some ''0'',
              proxyKey = Undefined\<rparr>"

definition score1 :: proxy where
  "score1 = \<lparr>proxyRef = ObjectRef 2, getProxyName = ''score'', getData = Some ''7'',
              proxyKey = Undefined\<rparr>"

definition game :: core where
  "game = Controller_init (Key ''game'') (View_init (Key ''game''))"

definition gameOver :: notification where
  "gameOver = Notification ''GAME_OVER'' None None"

text \<open>An observer whose callback suspends once, and one whose callback does not.\<close>

definition observer1 :: observer where
  "observer1 = Observer (Handler [Emit ''a1'', Suspend, Emit ''a2'']) (ObjectRef 1)"

definition observer2 :: observer where
  "observer2 = Observer (Handler [Emit ''b'']) (ObjectRef 2)"

text \<open>
  An observer whose callback removes the observer of object 2 and registers a third
  observer, both under the name of the notification being delivered.
\<close>

definition observer3 :: observer where
  "observer3 = Observer (Handler [Emit ''c'']) (ObjectRef 3)"

definition meddler :: observer where
  "meddler = Observer (Handler [RemoveObserver ''GAME_OVER'' (ObjectRef 2),
                                RegisterObserver ''GAME_OVER'' observer3, Emit ''m''])
               (ObjectRef 1)"

definition mediatorM :: mediator where
  "mediatorM = \<lparr>mediatorRef = ObjectRef 7, getMediatorName = ''M'',
      listNotificationInterests = [''GAME_OVER''], handleNotification = [Emit ''seen''],
      mediatorKey = Undefined\<rparr>"

definition mediatorM' :: mediator where
  "mediatorM' = \<lparr>mediatorRef = ObjectRef 8, getMediatorName = ''M'',
      listNotificationInterests = [''GAME_OVER'', ''PAUSE''], handleNotification = [Emit ''other''],
      mediatorKey = Undefined\<rparr>"

definition commandA :: commandClass where
  "commandA = CommandClass ''A'' ([''a1''] # [''a2''] # []) (Some (InBody, ''boom''))"

definition commandT :: commandClass where
  "commandT = CommandClass ''T'' ([''t1''] # []) (Some (InConstructor, ''bad''))"

definition commandB :: commandClass where
  "commandB = CommandClass ''B'' ([''b1''] # [''b2''] # []) None"

definition parallelAB :: macroCommand where
  "parallelAB = MacroCommand_initializeNotifier (Key ''game'')
     (addSubCommand commandB (addSubCommand commandA (MacroCommand_new False)))"

definition parallelTB :: macroCommand where
  "parallelTB = MacroCommand_initializeNotifier (Key ''game'')
     (addSubCommand commandB (addSubCommand commandT (MacroCommand_new False)))"

definition sequentialAB :: macroCommand where
  "sequentialAB = MacroCommand_initializeNotifier (Key ''game'')
     (addSubCommand commandB (addSubCommand commandA (MacroCommand_new True)))"

section \<open>Properties\<close>

subsection \<open>Model\<close>

text \<open>
  C9. When the name of the proxy is already registered, \<open>registerProxy\<close> replaces the entry
  of that name by the new proxy (bound to the key of the model), leaves every other entry
  as it was, and calls exactly one hook, \<open>onRegister\<close> on the new proxy: no \<open>onRemove\<close> is
  called, on the displaced proxy or on any other.
\<close>

theorem registerProxy_overwrites:
  "hasProxy (getProxyName p) m \<Longrightarrow>
     retrieveProxy (getProxyName p) (registerProxy p m) = Some (p\<lparr>proxyKey := modelKey m\<rparr>)
     \<and> (\<forall>n. n \<noteq> getProxyName p \<longrightarrow> retrieveProxy n (registerProxy p m) = retrieveProxy n m)
     \<and> hooks (registerProxy p m) = hooks m @ [OnRegister (proxyRef p)]
     \<and> modelKey (registerProxy p m) = modelKey m"
  by (simp add: registerProxy_def retrieveProxy_def Let_def)

theorem registerProxy_overwrites_witness:
  "hasProxy (getProxyName score1) (registerProxy score0 (Model_init (Key ''game'')))
   \<and> retrieveProxy ''score'' (registerProxy score1 (registerProxy score0 (Model_init (Key ''game''))))
       = Some (score1\<lparr>proxyKey := Key ''game''\<rparr>)
   \<and> hooks (registerProxy score1 (registerProxy score0 (Model_init (Key ''game''))))
       = [OnRegister (ObjectRef 1), OnRegister (ObjectRef 2)]"
  using registerProxy_overwrites [of score1 "registerProxy score0 (Model_init (Key ''game''))"]
  by (simp add: registerProxy_def hasProxy_def score0_def score1_def Model_init_def Let_def)

subsection \<open>Multiton instance maps\<close>

lemma Model_getInstance_Facade:
  "Model_getInstance k st = Inr (m, st') \<Longrightarrow>
     Facade_instanceMap st' = Facade_instanceMap st \<and> Model_instanceMap st' k = Some m"
  by (auto simp: Model_getInstance_def Model_new_def Let_def split: option.splits if_splits)

lemma View_getInstance_Facade:
  "View_getInstance k st = Inr (v, st') \<Longrightarrow>
     Facade_instanceMap st' = Facade_instanceMap st \<and> View_instanceMap st' k = Some v"
  by (auto simp: View_getInstance_def View_new_def Let_def split: option.splits if_splits)

lemma Controller_getInstance_Facade:
  "Controller_getInstance k st = Inr (c, st') \<Longrightarrow>
     Facade_instanceMap st' = Facade_instanceMap st \<and> Controller_instanceMap st' k = Some c"
  by (auto simp: Controller_getInstance_def Controller_new_def Let_def
           split: option.splits if_splits sum.splits dest: View_getInstance_Facade)

text \<open>
  C10. When no facade exists for the key, \<open>Facade.removeCore\<close> returns the instance maps as
  they are. In particular a model, a view or a controller that its own \<open>getInstance\<close> has
  created for the key, no facade existing for it, is still registered under the key after
  \<open>removeCore\<close>.
\<close>

theorem removeCore_without_facade:
  "\<not> Facade_hasCore k st \<Longrightarrow>
     Facade_removeCore k st = st
     \<and> (\<forall>m st'. Model_getInstance k st = Inr (m, st') \<longrightarrow>
          Facade_removeCore k st' = st' \<and> Model_instanceMap (Facade_removeCore k st') k = Some m)
     \<and> (\<forall>v st'. View_getInstance k st = Inr (v, st') \<longrightarrow>
          Facade_removeCore k st' = st' \<and> View_instanceMap (Facade_removeCore k st') k = Some v)
     \<and> (\<forall>c st'. Controller_getInstance k st = Inr (c, st') \<longrightarrow>
          Facade_removeCore k st' = st'
          \<and> Controller_instanceMap (Facade_removeCore k st') k = Some c)"
  by (auto simp: Facade_removeCore_def Facade_hasCore_def
           dest: Model_getInstance_Facade View_getInstance_Facade Controller_getInstance_Facade)

theorem removeCore_without_facade_witness:
  "\<not> Facade_hasCore (Key ''a'') no_instances
   \<and> Facade_removeCore (Key ''a'') no_instances = no_instances
   \<and> Model_getInstance (Key ''a'') no_instances
       = Inr (Model_init (Key ''a''),
              no_instances\<lparr>Model_instanceMap := [Key ''a'' \<mapsto> Model_init (Key ''a'')]\<rparr>)
   \<and> Model_instanceMap
        (Facade_removeCore (Key ''a'')
           (no_instances\<lparr>Model_instanceMap := [Key ''a'' \<mapsto> Model_init (Key ''a'')]\<rparr>))
        (Key ''a'') = Some (Model_init (Key ''a''))"
  using removeCore_without_facade [of "Key ''a''" no_instances]
  by (simp add: Facade_hasCore_def no_instances_def Model_getInstance_def Model_new_def Let_def)

subsection \<open>Notifier\<close>

lemma Model_getInstance_total: "\<exists>m st'. Model_getInstance k st = Inr (m, st')"
  by (auto simp: Model_getInstance_def Model_new_def Let_def split: option.splits)

lemma View_getInstance_total: "\<exists>v st'. View_getInstance k st = Inr (v, st')"
  by (auto simp: View_getInstance_def View_new_def Let_def split: option.splits)

lemma Controller_getInstance_total: "\<exists>c st'. Controller_getInstance k st = Inr (c, st')"
  using View_getInstance_total[of k st]
  by (auto simp: Controller_getInstance_def Controller_new_def Let_def split: option.splits)

lemma Facade_getInstance_total: "\<exists>f st'. Facade_getInstance k st = Inr (f, st')"
proof (cases "Facade_instanceMap st k")
  case (Some f)
  then show ?thesis by (simp add: Facade_getInstance_def)
next
  case None
  let ?f = "\<lparr>facadeModel = None, facadeView = None, facadeController = None, facadeKey = k\<rparr>"
  let ?st0 = "st\<lparr>Facade_instanceMap := (Facade_instanceMap st)(k \<mapsto> ?f)\<rparr>"
  obtain m st1 where 1: "Model_getInstance k ?st0 = Inr (m, st1)"
    using Model_getInstance_total by blast
  obtain c st2 where 2: "Controller_getInstance k st1 = Inr (c, st2)"
    using Controller_getInstance_total by blast
  obtain v st3 where 3: "View_getInstance k st2 = Inr (v, st3)"
    using View_getInstance_total by blast
  show ?thesis using None 1 2 3
    by (simp add: Facade_getInstance_def Facade_new_def initializeFacade_def initializeModel_def
         initializeController_def initializeView_def Let_def domIff)
qed

text \<open>
  The getter \<open>facade\<close> throws exactly when the field holds \<open>null\<close>; for every other value,
  \<open>undefined\<close> included, it returns the facade of that value, creating it when needed.
\<close>

lemma Notifier_facade_throws_iff:
  "(\<exists>e. Notifier_facade n st = Inl e) \<longleftrightarrow> notifierKey n = Null"
  using Facade_getInstance_total[of "notifierKey n" st]
  by (auto simp: Notifier_facade_def)

text \<open>
  C3, at a notifier that \<open>initializeNotifier\<close> has never bound, no instance existing yet:
  the getter \<open>facade\<close> does not throw. It returns a facade of key \<open>undefined\<close>, which is now
  registered under that key, with a model, a view and a controller created for it.
\<close>

theorem facade_of_new_notifier:
  "(case Notifier_facade Notifier_new no_instances of
      Inl e \<Rightarrow> False
    | Inr (f, st') \<Rightarrow>
        facadeKey f = Undefined \<and> Facade_instanceMap st' Undefined = Some f
        \<and> Model_instanceMap st' Undefined = Some (Model_init Undefined)
        \<and> View_instanceMap st' Undefined = Some (View_init Undefined)
        \<and> Controller_instanceMap st' Undefined
            = Some (Controller_init Undefined (View_init Undefined)))"
  by (simp add: Notifier_facade_def Notifier_new_def no_instances_def Facade_getInstance_def
      Facade_new_def initializeFacade_def initializeModel_def initializeController_def
      initializeView_def Model_getInstance_def Model_new_def Controller_getInstance_def
      Controller_new_def View_getInstance_def View_new_def Let_def)

subsection \<open>The observer map\<close>

lemma registerObserver_inv: "view_inv v \<Longrightarrow> view_inv (registerObserver n obs v)"
  by (auto simp: view_inv_def registerObserver_def split: option.splits)

lemma removeObserver_inv: "view_inv v \<Longrightarrow> view_inv (removeObserver n c v)"
  by (auto simp: view_inv_def removeObserver_def Let_def split: option.splits)

lemma foldl_view_inv:
  assumes "\<And>w x. view_inv w \<Longrightarrow> view_inv (f w x)" and "view_inv v"
  shows "view_inv (foldl f v xs)"
  using assms(2) by (induction xs arbitrary: v) (simp_all add: assms(1))

lemma view_inv_trace [simp]: "view_inv (v\<lparr>trace := t\<rparr>) = view_inv v"
  by (simp add: view_inv_def)

lemma view_inv_mediatorMap [simp]: "view_inv (v\<lparr>mediatorMap := t\<rparr>) = view_inv v"
  by (simp add: view_inv_def)

lemma view_inv_commandMap [simp]: "view_inv (s\<lparr>commandMap := t\<rparr>) = view_inv s"
  by (simp add: view_inv_def)

lemma registerMediator_inv: "view_inv v \<Longrightarrow> view_inv (registerMediator med v)"
  by (simp add: registerMediator_def Let_def foldl_view_inv registerObserver_inv)

lemma removeMediator_inv: "view_inv v \<Longrightarrow> view_inv (snd (removeMediator n v))"
  by (simp add: removeMediator_def Let_def foldl_view_inv removeObserver_inv split: option.splits)

lemma run_inv: "view_inv v \<Longrightarrow> view_inv (snd (run script v))"
  by (induction script v rule: run.induct) (auto intro: registerObserver_inv removeObserver_inv)

lemma run_awaited_inv: "view_inv v \<Longrightarrow> view_inv (snd (run_awaited script v))"
  by (induction script v rule: run_awaited.induct) (auto intro: registerObserver_inv removeObserver_inv)

lemma executeCommand_inv: "view_inv s \<Longrightarrow> view_inv (snd (executeCommand ntf s))"
  by (auto simp: executeCommand_def Let_def split: option.splits intro!: run_inv)

lemma ended_inv: "view_inv (snd r) \<Longrightarrow> view_inv (snd (ended obs r))"
  by (auto simp: ended_def split: promise.splits completion.splits)

lemma notifyObserver_inv: "view_inv s \<Longrightarrow> view_inv (snd (notifyObserver obs ntf s))"
  by (auto simp: notifyObserver_def callNotifyMethod_def split: callback.splits
      intro!: ended_inv run_inv executeCommand_inv)

lemma resume_inv: "view_inv s \<Longrightarrow> view_inv (snd (resume obs rest s))"
  by (auto simp: resume_def intro!: ended_inv run_inv)

lemma notifyObserver_awaited_inv: "view_inv s \<Longrightarrow> view_inv (snd (notifyObserver_awaited obs ntf s))"
proof -
  assume a: "view_inv s"
  obtain p s' where 1: "notifyObserver obs ntf s = (p, s')" by force
  have 2: "view_inv s'" using notifyObserver_inv[OF a, of obs ntf] 1 by simp
  show ?thesis
  proof (cases p)
    case (Settled c) then show ?thesis using 1 2 by (simp add: notifyObserver_awaited_def)
  next
    case (Pending rest)
    obtain c s'' where 3: "run_awaited rest s' = (c, s'')" by force
    have "view_inv s''" using run_awaited_inv[OF 2, of rest] 3 by simp
    then show ?thesis using 1 Pending 3 by (cases c) (simp_all add: notifyObserver_awaited_def)
  qed
qed

lemma notifyObservers_loop_inv:
  "view_inv s \<Longrightarrow> view_inv (fst (notifyObservers_loop observers ntf s))"
proof (induction observers arbitrary: s)
  case Nil then show ?case by simp
next
  case (Cons obs observers)
  obtain p s' where 1: "notifyObserver obs ntf s = (p, s')" by force
  have 2: "view_inv s'" using notifyObserver_inv[OF Cons.prems, of obs ntf] 1 by simp
  show ?case using Cons.IH[OF 2] 1 by (cases p) (auto split: prod.splits)
qed

lemma notifyObservers_inv: "view_inv s \<Longrightarrow> view_inv (fst (notifyObservers ntf s))"
  by (auto simp: notifyObservers_def split: option.splits intro: notifyObservers_loop_inv)

lemma notifyObservers_awaiting_loop_inv:
  "view_inv s \<Longrightarrow> view_inv (snd (notifyObservers_awaiting_loop observers ntf s))"
proof (induction observers arbitrary: s)
  case Nil then show ?case by simp
next
  case (Cons obs observers)
  obtain c s' where 1: "notifyObserver_awaited obs ntf s = (c, s')" by force
  have 2: "view_inv s'" using notifyObserver_awaited_inv[OF Cons.prems, of obs ntf] 1 by simp
  show ?case using Cons.IH[OF 2] 1 2 by (cases c) auto
qed

lemma notifyObservers_bundle_inv: "view_inv s \<Longrightarrow> view_inv (snd (notifyObservers_bundle ntf s))"
  by (auto simp: notifyObservers_bundle_def split: option.splits intro: notifyObservers_awaiting_loop_inv)

lemma View_init_inv: "view_inv (View_init k)"
  by (simp add: view_inv_def View_init_def)

lemma removeObserver_deletes_empty:
  "observerMap v n = Some observers \<Longrightarrow>
   removeObserver_loop (length observers) c observers = [] \<Longrightarrow>
   observerMap (removeObserver n c v) n = None"
  by (simp add: removeObserver_def)

text \<open>
  C5. No name of the observer map is mapped to an empty list: this holds in a new view,
  and \<open>registerObserver\<close>, \<open>removeObserver\<close>, \<open>registerMediator\<close>, \<open>removeMediator\<close> and
  \<open>notifyObservers\<close> (the method of the TypeScript source, a pending callback resumed
  later, and the method of the built bundle) keep it, whatever the callbacks register or
  remove. When
  \<open>removeObserver\<close> leaves the list of a name empty, the name is deleted from the map.
\<close>

theorem observer_lists_never_empty:
  "view_inv (View_init k)
   \<and> (view_inv v \<longrightarrow> view_inv (registerObserver n obs v))
   \<and> (view_inv v \<longrightarrow> view_inv (removeObserver n c v))
   \<and> (view_inv v \<longrightarrow> view_inv (registerMediator med v))
   \<and> (view_inv v \<longrightarrow> view_inv (snd (removeMediator n v)))
   \<and> (view_inv s \<longrightarrow> view_inv (fst (notifyObservers ntf s)))
   \<and> (view_inv s \<longrightarrow> view_inv (snd (resume obs rest s)))
   \<and> (view_inv s \<longrightarrow> view_inv (snd (notifyObservers_bundle ntf s)))
   \<and> (observerMap v n = Some observers
        \<and> removeObserver_loop (length observers) c observers = []
        \<longrightarrow> observerMap (removeObserver n c v) n = None)"
  by (simp add: View_init_inv registerObserver_inv removeObserver_inv registerMediator_inv
      removeMediator_inv notifyObservers_inv resume_inv notifyObservers_bundle_inv
      removeObserver_deletes_empty)

theorem observer_lists_never_empty_witness:
  "view_inv game
   \<and> view_inv (registerObserver ''GAME_OVER'' observer2 game)
   \<and> observerMap (registerObserver ''GAME_OVER'' observer2 game) ''GAME_OVER'' = Some [observer2]
   \<and> view_inv (removeObserver ''GAME_OVER'' (ObjectRef 2)
        (registerObserver ''GAME_OVER'' observer2 game))
   \<and> observerMap (removeObserver ''GAME_OVER'' (ObjectRef 2)
        (registerObserver ''GAME_OVER'' observer2 game)) ''GAME_OVER'' = None
   \<and> view_inv (registerMediator mediatorM game)
   \<and> view_inv (snd (removeMediator ''M'' (registerMediator mediatorM game)))
   \<and> view_inv (fst (notifyObservers gameOver (registerObserver ''GAME_OVER'' meddler game)))
   \<and> view_inv (snd (notifyObservers_bundle gameOver (registerObserver ''GAME_OVER'' meddler game)))"
proof -
  have g: "view_inv game"
    by (simp add: view_inv_def game_def Controller_init_def View_init_def view.extend_def)
  have r: "view_inv (registerObserver ''GAME_OVER'' observer2 game)"
    using g observer_lists_never_empty [where v = game and n = "''GAME_OVER''" and obs = observer2] by simp
  have m: "view_inv (registerObserver ''GAME_OVER'' meddler game)"
    using g observer_lists_never_empty [where v = game and n = "''GAME_OVER''" and obs = meddler] by simp
  have rm: "view_inv (registerMediator mediatorM game)"
    using g observer_lists_never_empty [where v = game and med = mediatorM] by simp
  have o: "observerMap (registerObserver ''GAME_OVER'' observer2 game) ''GAME_OVER'' = Some [observer2]"
    by (simp add: registerObserver_def game_def Controller_init_def View_init_def view.extend_def)
  have e: "removeObserver_loop (length [observer2]) (ObjectRef 2) [observer2] = []"
    by (simp add: compareNotifyContext_def observer2_def splice1_def)
  show ?thesis
    using g r o e rm m
      observer_lists_never_empty [where v = "registerObserver ''GAME_OVER'' observer2 game"
        and n = "''GAME_OVER''" and c = "ObjectRef 2" and observers = "[observer2]"]
      observer_lists_never_empty [where v = "registerMediator mediatorM game" and n = "''M''"]
      observer_lists_never_empty [where s = "registerObserver ''GAME_OVER'' meddler game"
        and ntf = gameOver]
    by simp
qed

subsection \<open>Delivery of a notification\<close>

lemma invoked_append: "invoked (xs @ ys) = invoked xs @ invoked ys"
  by (induction xs rule: invoked.induct) auto

lemma trace_registerObserver [simp]: "trace (registerObserver n obs v) = trace v"
  by (simp add: registerObserver_def split: option.splits)

lemma trace_removeObserver [simp]: "trace (removeObserver n c v) = trace v"
  by (simp add: removeObserver_def Let_def split: option.splits)

lemma run_invoked: "invoked (trace (snd (run script v))) = invoked (trace v)"
  by (induction script v rule: run.induct) (auto simp: invoked_append)

lemma run_awaited_invoked: "invoked (trace (snd (run_awaited script v))) = invoked (trace v)"
  by (induction script v rule: run_awaited.induct) (auto simp: invoked_append)

lemma invoked_begun: "invoked (begun c k ntf) = []"
  by (simp add: begun_def split: option.splits prod.splits stage.splits)

lemma executeCommand_invoked: "invoked (trace (snd (executeCommand ntf s))) = invoked (trace s)"
  by (auto simp: executeCommand_def Let_def run_invoked invoked_append invoked_begun
      split: option.splits)

lemma ended_invoked: "invoked (trace (snd (ended obs r))) = invoked (trace (snd r))"
  by (auto simp: ended_def invoked_append split: promise.splits completion.splits)

lemma notifyObserver_invoked:
  "invoked (trace (snd (notifyObserver obs ntf s))) = invoked (trace s) @ [obs]"
  by (auto simp: notifyObserver_def callNotifyMethod_def ended_invoked run_invoked
      executeCommand_invoked invoked_append split: callback.splits)

lemma notifyObservers_loop_invoked:
  "invoked (trace (fst (notifyObservers_loop observers ntf s))) = invoked (trace s) @ observers"
proof (induction observers arbitrary: s)
  case Nil then show ?case by simp
next
  case (Cons obs observers)
  obtain p s' where 1: "notifyObserver obs ntf s = (p, s')" by force
  have 2: "invoked (trace s') = invoked (trace s) @ [obs]"
    using notifyObserver_invoked[of obs ntf s] 1 by simp
  show ?case using Cons.IH[of s'] 1 2 by (cases p) (auto split: prod.splits)
qed

lemma notifyObserver_awaited_invoked:
  "invoked (trace (snd (notifyObserver_awaited obs ntf s))) = invoked (trace s) @ [obs]"
proof -
  obtain p s' where 1: "notifyObserver obs ntf s = (p, s')" by force
  have 2: "invoked (trace s') = invoked (trace s) @ [obs]"
    using notifyObserver_invoked[of obs ntf s] 1 by simp
  show ?thesis
  proof (cases p)
    case (Settled c) then show ?thesis using 1 2 by (simp add: notifyObserver_awaited_def)
  next
    case (Pending rest)
    obtain c s'' where 3: "run_awaited rest s' = (c, s'')" by force
    have "invoked (trace s'') = invoked (trace s')" using run_awaited_invoked[of rest s'] 3 by simp
    then show ?thesis using 1 2 Pending 3 by (cases c) (simp_all add: notifyObserver_awaited_def invoked_append)
  qed
qed

lemma notifyObservers_awaiting_loop_invoked:
  "fst (notifyObservers_awaiting_loop observers ntf s) = Resolved \<Longrightarrow>
   invoked (trace (snd (notifyObservers_awaiting_loop observers ntf s))) = invoked (trace s) @ observers"
proof (induction observers arbitrary: s)
  case Nil then show ?case by simp
next
  case (Cons obs observers)
  obtain c s' where 1: "notifyObserver_awaited obs ntf s = (c, s')" by force
  have 2: "invoked (trace s') = invoked (trace s) @ [obs]"
    using notifyObserver_awaited_invoked[of obs ntf s] 1 by simp
  show ?case using Cons.IH[of s'] Cons.prems 1 2 by (cases c) auto
qed

text \<open>
  C4. The observers that one call of \<open>notifyObservers\<close> calls are the observers registered
  under the name of the notification when the call began, each once and in their order,
  whatever the callbacks register or remove meanwhile. In the TypeScript source of \<open>View\<close>
  this holds for every call; in the built bundle, which awaits each observer and stops at
  the first rejection, it holds for every call that ends without a rejection.
\<close>

theorem notifyObservers_delivers_snapshot:
  "invoked (trace (fst (notifyObservers ntf s))) = invoked (trace s) @ snapshot ntf s
   \<and> (fst (notifyObservers_bundle ntf s) = Resolved \<longrightarrow>
        invoked (trace (snd (notifyObservers_bundle ntf s))) = invoked (trace s) @ snapshot ntf s)"
  by (auto simp: notifyObservers_def notifyObservers_bundle_def snapshot_def
      notifyObservers_loop_invoked notifyObservers_awaiting_loop_invoked split: option.splits)

theorem notifyObservers_delivers_snapshot_witness:
  "snapshot gameOver (registerObserver ''GAME_OVER'' observer2 (registerObserver ''GAME_OVER'' meddler game))
     = [meddler, observer2]
   \<and> fst (notifyObservers_bundle gameOver
        (registerObserver ''GAME_OVER'' observer2 (registerObserver ''GAME_OVER'' meddler game)))
       = Resolved
   \<and> invoked (trace (snd (notifyObservers_bundle gameOver
        (registerObserver ''GAME_OVER'' observer2 (registerObserver ''GAME_OVER'' meddler game)))))
       = [meddler, observer2]
   \<and> invoked (trace (fst (notifyObservers gameOver
        (registerObserver ''GAME_OVER'' observer2 (registerObserver ''GAME_OVER'' meddler game)))))
       = [meddler, observer2]
   \<and> snapshot gameOver (fst (notifyObservers gameOver
        (registerObserver ''GAME_OVER'' observer2 (registerObserver ''GAME_OVER'' meddler game))))
       = [meddler, observer3]"
proof -
  let ?s = "registerObserver ''GAME_OVER'' observer2 (registerObserver ''GAME_OVER'' meddler game)"
  have sn: "snapshot gameOver ?s = [meddler, observer2]"
    by (simp add: snapshot_def registerObserver_def game_def Controller_init_def View_init_def
        view.extend_def gameOver_def)
  have t: "invoked (trace ?s) = []"
    by (simp add: game_def Controller_init_def View_init_def view.extend_def)
  have b: "fst (notifyObservers_bundle gameOver ?s) = Resolved"
    by (simp add: notifyObservers_bundle_def registerObserver_def game_def Controller_init_def
        View_init_def view.extend_def gameOver_def notifyObserver_awaited_def notifyObserver_def
        callNotifyMethod_def ended_def meddler_def observer2_def observer3_def removeObserver_def
        compareNotifyContext_def splice1_def)
  have a: "snapshot gameOver (fst (notifyObservers gameOver ?s)) = [meddler, observer3]"
    by (simp add: snapshot_def notifyObservers_def registerObserver_def game_def
        Controller_init_def View_init_def view.extend_def gameOver_def notifyObserver_def
        callNotifyMethod_def ended_def meddler_def observer2_def observer3_def removeObserver_def
        compareNotifyContext_def splice1_def)
  show ?thesis
    using notifyObservers_delivers_snapshot [of gameOver ?s] sn t b a by simp
qed

lemma calls_append: "calls (xs @ ys) = calls xs @ calls ys"
  by (induction xs rule: calls.induct) auto

lemma run_calls: "calls (trace (snd (run script v))) = calls (trace v)"
  by (induction script v rule: run.induct) (auto simp: calls_append)

lemma run_awaited_calls: "calls (trace (snd (run_awaited script v))) = calls (trace v)"
  by (induction script v rule: run_awaited.induct) (auto simp: calls_append)

lemma calls_begun: "calls (begun c k ntf) = []"
  by (simp add: begun_def split: option.splits prod.splits stage.splits)

lemma executeCommand_calls: "calls (trace (snd (executeCommand ntf s))) = calls (trace s)"
  by (auto simp: executeCommand_def Let_def run_calls calls_append calls_begun
      split: option.splits)

lemma callNotifyMethod_calls: "calls (trace (snd (callNotifyMethod obs ntf s))) = calls (trace s)"
  by (auto simp: callNotifyMethod_def run_calls executeCommand_calls split: callback.splits)

lemma notifyObserver_awaited_calls:
  assumes "notifyObserver_awaited obs ntf s = (Resolved, s')"
  shows "calls (trace s') = calls (trace s) @ [Begin obs ntf, End obs]"
proof -
  let ?s0 = "s\<lparr>trace := trace s @ [Begin obs ntf]\<rparr>"
  obtain p s1 where 1: "callNotifyMethod obs ntf ?s0 = (p, s1)" by force
  have 2: "calls (trace s1) = calls (trace s) @ [Begin obs ntf]"
    using callNotifyMethod_calls[of obs ntf ?s0] 1 by (simp add: calls_append)
  show ?thesis
  proof (cases p)
    case (Settled c)
    then show ?thesis using assms 1 2
      by (cases c) (auto simp: notifyObserver_awaited_def notifyObserver_def ended_def calls_append)
  next
    case (Pending rest)
    obtain c s2 where 3: "run_awaited rest s1 = (c, s2)" by force
    have 4: "calls (trace s2) = calls (trace s1)" using run_awaited_calls[of rest s1] 3 by simp
    show ?thesis using assms 1 2 3 4 Pending
      by (cases c) (auto simp: notifyObserver_awaited_def notifyObserver_def ended_def calls_append)
  qed
qed

lemma notifyObservers_awaiting_loop_calls:
  "notifyObservers_awaiting_loop observers ntf s = (Resolved, s') \<Longrightarrow>
   calls (trace s') = calls (trace s) @ concat (map (\<lambda>obs. [Begin obs ntf, End obs]) observers)"
proof (induction observers arbitrary: s)
  case Nil then show ?case by simp
next
  case (Cons obs observers)
  obtain c s1 where 1: "notifyObserver_awaited obs ntf s = (c, s1)" by force
  show ?case
  proof (cases c)
    case Resolved
    have "calls (trace s1) = calls (trace s) @ [Begin obs ntf, End obs]"
      using notifyObserver_awaited_calls 1 Resolved by simp
    moreover have "notifyObservers_awaiting_loop observers ntf s1 = (Resolved, s')"
      using Cons.prems 1 Resolved by simp
    ultimately show ?thesis using Cons.IH[of s1] by simp
  next
    case (Rejected e) then show ?thesis using Cons.prems 1 by simp
  qed
qed

text \<open>
  The built bundle awaits each observer: when the delivery ends without a rejection, the
  callbacks have begun and ended one after the other, in the order of the list.
\<close>

lemma notifyObservers_bundle_in_sequence:
  "notifyObservers_bundle ntf s = (Resolved, s') \<Longrightarrow>
   calls (trace s') = calls (trace s) @ concat (map (\<lambda>obs. [Begin obs ntf, End obs]) (snapshot ntf s))"
  by (auto simp: notifyObservers_bundle_def snapshot_def notifyObservers_awaiting_loop_calls split: option.splits)

text \<open>
  Two observers registered one after the other under a name are the last two of its list,
  in that order.
\<close>

lemma snapshot_two:
  "snapshot ntf (registerObserver (getName ntf) o2 (registerObserver (getName ntf) o1 s)) = snapshot ntf s @ [o1, o2]"
  by (simp add: snapshot_def registerObserver_def split: option.splits)

text \<open>
  On the two observers of the example, the first of which suspends once, the built bundle
  ends the first callback before it begins the second.
\<close>

lemma notifyObservers_bundle_awaits:
  "fst (notifyObservers_bundle gameOver
      (registerObserver ''GAME_OVER'' observer2 (registerObserver ''GAME_OVER'' observer1 game))) = Resolved
  \<and> trace (snd (notifyObservers_bundle gameOver
      (registerObserver ''GAME_OVER'' observer2 (registerObserver ''GAME_OVER'' observer1 game))))
     = [Begin observer1 gameOver, Output ''a1'', Output ''a2'', End observer1,
        Begin observer2 gameOver, Output ''b'', End observer2]"
  by (simp add: notifyObservers_bundle_def registerObserver_def game_def Controller_init_def View_init_def
      view.extend_def gameOver_def notifyObserver_awaited_def notifyObserver_def callNotifyMethod_def ended_def observer1_def observer2_def)

text \<open>
  C2, at the two observers of the example, registered in this order under one name, the
  callback of the first suspending once. \<open>notifyObservers\<close> of the TypeScript source of
  \<open>View\<close> calls the first observer before the second, but does not await it: the callback
  of the second observer begins, and ends, while the first is still suspended, and the
  method returns with the rest of the first callback still to run.
\<close>

theorem notifyObservers_does_not_await:
  "trace (fst (notifyObservers gameOver
      (registerObserver ''GAME_OVER'' observer2 (registerObserver ''GAME_OVER'' observer1 game))))
     = [Begin observer1 gameOver, Output ''a1'', Begin observer2 gameOver, Output ''b'', End observer2]
   \<and> snd (notifyObservers gameOver
      (registerObserver ''GAME_OVER'' observer2 (registerObserver ''GAME_OVER'' observer1 game)))
     = [(observer1, [Emit ''a2''])]"
  by (simp add: notifyObservers_def registerObserver_def game_def Controller_init_def View_init_def
      view.extend_def gameOver_def notifyObserver_def callNotifyMethod_def ended_def observer1_def
      observer2_def)

subsection \<open>Counting the observers of a context\<close>

lemma multitonKey_registerObserver [simp]: "multitonKey (registerObserver n obs v) = multitonKey v"
  by (simp add: registerObserver_def split: option.splits)

lemma multitonKey_removeObserver [simp]: "multitonKey (removeObserver n c v) = multitonKey v"
  by (simp add: removeObserver_def Let_def split: option.splits)

lemma mediatorMap_registerObserver [simp]: "mediatorMap (registerObserver n obs v) = mediatorMap v"
  by (simp add: registerObserver_def split: option.splits)

lemma mediatorMap_removeObserver [simp]: "mediatorMap (removeObserver n c v) = mediatorMap v"
  by (simp add: removeObserver_def Let_def split: option.splits)

lemma commandMap_registerObserver [simp]: "commandMap (registerObserver n obs s) = commandMap s"
  by (simp add: registerObserver_def split: option.splits)

lemma commandMap_removeObserver [simp]: "commandMap (removeObserver n c s) = commandMap s"
  by (simp add: removeObserver_def Let_def split: option.splits)

lemma subscribed_registerObserver:
  "subscribed c n (registerObserver n' obs v) =
     subscribed c n v + (if n = n' \<and> compareNotifyContext obs c then 1 else 0)"
  by (auto simp: subscribed_def registerObserver_def split: option.splits)

lemma filter_splice1:
  "i < length xs \<Longrightarrow>
   length (filter P (splice1 i xs)) = length (filter P xs) - (if P (xs ! i) then 1 else 0)"
proof -
  assume a: "i < length xs"
  have "xs = take i xs @ xs ! i # drop (Suc i) xs" using a by (rule id_take_nth_drop)
  then have "filter P xs = filter P (take i xs) @ filter P [xs ! i] @ filter P (drop (Suc i) xs)"
    by (metis append_Cons append_Nil filter_append)
  then show ?thesis by (auto simp: splice1_def)
qed

lemma loop_other:
  "i \<le> length xs \<Longrightarrow> c \<noteq> c' \<Longrightarrow>
   filter (\<lambda>obs. compareNotifyContext obs c) (removeObserver_loop i c' xs)
     = filter (\<lambda>obs. compareNotifyContext obs c) xs"
proof (induction i)
  case 0 then show ?case by simp
next
  case (Suc i)
  have lt: "i < length xs" using Suc.prems by simp
  have "xs = take i xs @ xs ! i # drop (Suc i) xs" using lt by (rule id_take_nth_drop)
  then have f: "filter (\<lambda>obs. compareNotifyContext obs c) xs
      = filter (\<lambda>obs. compareNotifyContext obs c) (take i xs)
        @ filter (\<lambda>obs. compareNotifyContext obs c) [xs ! i]
        @ filter (\<lambda>obs. compareNotifyContext obs c) (drop (Suc i) xs)"
    by (metis append_Cons append_Nil filter_append)
  show ?case
  proof (cases "compareNotifyContext (xs ! i) c'")
    case True
    then have "\<not> compareNotifyContext (xs ! i) c" using Suc.prems by (auto simp: compareNotifyContext_def)
    then show ?thesis using True f by (simp add: splice1_def)
  next
    case False
    then show ?thesis using Suc by simp
  qed
qed

lemma loop_same:
  "i \<le> length xs \<Longrightarrow>
   length (filter (\<lambda>obs. compareNotifyContext obs c) (removeObserver_loop i c xs))
     = length (filter (\<lambda>obs. compareNotifyContext obs c) xs)
       - (if \<exists>j<i. compareNotifyContext (xs ! j) c then 1 else 0)"
proof (induction i)
  case 0 then show ?case by simp
next
  case (Suc i)
  have lt: "i < length xs" using Suc.prems by simp
  show ?case
  proof (cases "compareNotifyContext (xs ! i) c")
    case True
    then show ?thesis using filter_splice1[OF lt, of "\<lambda>obs. compareNotifyContext obs c"] by auto
  next
    case False
    have "(\<exists>j<Suc i. compareNotifyContext (xs ! j) c) = (\<exists>j<i. compareNotifyContext (xs ! j) c)"
      using False less_Suc_eq by auto
    then show ?thesis using Suc False by simp
  qed
qed

lemma loop_same_full:
  "length (filter (\<lambda>obs. compareNotifyContext obs c) (removeObserver_loop (length xs) c xs))
     = length (filter (\<lambda>obs. compareNotifyContext obs c) xs) - 1"
proof (cases "\<exists>j<length xs. compareNotifyContext (xs ! j) c")
  case True then show ?thesis using loop_same[of "length xs" xs c] by simp
next
  case False
  then have "filter (\<lambda>obs. compareNotifyContext obs c) xs = []"
    by (auto simp: filter_empty_conv in_set_conv_nth)
  then show ?thesis using loop_same[of "length xs" xs c] False by simp
qed

lemma subscribed_removeObserver_other_name:
  "n \<noteq> n' \<Longrightarrow> subscribed c n (removeObserver n' c' v) = subscribed c n v"
  by (auto simp: subscribed_def removeObserver_def Let_def split: option.splits)

lemma subscribed_removeObserver_other:
  "c \<noteq> c' \<Longrightarrow> subscribed c n (removeObserver n' c' v) = subscribed c n v"
proof (cases "n = n'")
  case False then show ?thesis by (simp add: subscribed_removeObserver_other_name)
next
  case True
  assume ne: "c \<noteq> c'"
  show ?thesis
  proof (cases "observerMap v n'")
    case None then show ?thesis by (simp add: subscribed_def removeObserver_def)
  next
    case (Some xs)
    have "filter (\<lambda>obs. compareNotifyContext obs c) (removeObserver_loop (length xs) c' xs)
            = filter (\<lambda>obs. compareNotifyContext obs c) xs"
      using loop_other[of "length xs" xs c c'] ne by simp
    then show ?thesis using Some True
      by (auto simp: subscribed_def removeObserver_def Let_def)
  qed
qed

lemma subscribed_removeObserver_same:
  "subscribed c n (removeObserver n c v) = subscribed c n v - 1"
proof (cases "observerMap v n")
  case None then show ?thesis by (simp add: subscribed_def removeObserver_def)
next
  case (Some xs)
  then show ?thesis using loop_same_full[of c xs]
    by (auto simp: subscribed_def removeObserver_def Let_def)
qed

lemma subscribed_trace [simp]: "subscribed c n (v\<lparr>trace := t\<rparr>) = subscribed c n v"
  by (simp add: subscribed_def)

lemma subscribed_mediatorMap [simp]: "subscribed c n (v\<lparr>mediatorMap := t\<rparr>) = subscribed c n v"
  by (simp add: subscribed_def)

lemma subscribed_commandMap [simp]: "subscribed c n (s\<lparr>commandMap := t\<rparr>) = subscribed c n s"
  by (simp add: subscribed_def)

subsection \<open>Mediators\<close>

lemma foldl_registerObserver_subscribed:
  "subscribed c n (foldl (\<lambda>w interest. registerObserver interest obs w) v ns)
     = subscribed c n v + (if compareNotifyContext obs c then count_list ns n else 0)"
  by (induction ns arbitrary: v) (simp_all add: subscribed_registerObserver)

lemma count_list_distinct: "distinct ns \<Longrightarrow> count_list ns n = (if n \<in> set ns then 1 else 0)"
  by (induction ns) auto

text \<open>
  A first registration adds, under each name, one observer of the mediator for each time
  the name occurs in its interests.
\<close>

lemma registerMediator_subscribed:
  assumes "\<not> hasMediator (getMediatorName med) v"
  shows "subscribed c n (registerMediator med v)
     = subscribed c n v
       + (if c = mediatorRef med then count_list (listNotificationInterests med) n else 0)"
proof (cases "listNotificationInterests med")
  case Nil
  then show ?thesis using assms by (simp add: registerMediator_def hasMediator_def Let_def)
next
  case (Cons a list)
  then show ?thesis using assms
    by (simp add: registerMediator_def hasMediator_def Let_def foldl_registerObserver_subscribed
        subscribed_registerObserver compareNotifyContext_def del: foldl_Cons)
qed

lemma registerMediator_registers:
  "\<not> hasMediator (getMediatorName med) v \<Longrightarrow>
   retrieveMediator (getMediatorName med) (registerMediator med v)
     = Some (med\<lparr>mediatorKey := multitonKey v\<rparr>)"
proof -
  have m: "mediatorMap (foldl (\<lambda>w interest. registerObserver interest obs w) w0 ns) = mediatorMap w0"
    for obs and w0 :: "'a view_scheme" and ns
    by (induction ns arbitrary: w0) simp_all
  assume "\<not> hasMediator (getMediatorName med) v"
  then show ?thesis
    by (simp add: registerMediator_def hasMediator_def retrieveMediator_def Let_def m)
qed

text \<open>
  C6. When the name of the mediator is already registered, \<open>registerMediator\<close> changes
  nothing: neither the mediator map, nor the observer map, nor the trace, to which no
  \<open>onRegister\<close> is added. So when a mediator that has no observer yet and whose interests
  are distinct is registered under a new name, and then a mediator of the same name is
  registered, the first mediator is still the one registered under the name, and under
  each of its interests it has exactly one observer, and none under any other name.
\<close>

theorem registerMediator_twice:
  "(hasMediator (getMediatorName med') v \<longrightarrow> registerMediator med' v = v)
   \<and> (\<not> hasMediator (getMediatorName med) v \<and> getMediatorName med' = getMediatorName med
        \<and> distinct (listNotificationInterests med)
        \<and> (\<forall>n. subscribed (mediatorRef med) n v = 0)
      \<longrightarrow> registerMediator med' (registerMediator med v) = registerMediator med v
          \<and> retrieveMediator (getMediatorName med) (registerMediator med' (registerMediator med v))
              = Some (med\<lparr>mediatorKey := multitonKey v\<rparr>)
          \<and> (\<forall>n. subscribed (mediatorRef med) n (registerMediator med' (registerMediator med v))
                = (if n \<in> set (listNotificationInterests med) then 1 else 0)))"
proof -
  have 1: "hasMediator (getMediatorName med') v \<longrightarrow> registerMediator med' v = v"
    by (simp add: registerMediator_def hasMediator_def Let_def)
  have 2: "registerMediator med' (registerMediator med v) = registerMediator med v
          \<and> retrieveMediator (getMediatorName med) (registerMediator med' (registerMediator med v))
              = Some (med\<lparr>mediatorKey := multitonKey v\<rparr>)
          \<and> (\<forall>n. subscribed (mediatorRef med) n (registerMediator med' (registerMediator med v))
                = (if n \<in> set (listNotificationInterests med) then 1 else 0))"
    if h: "\<not> hasMediator (getMediatorName med) v" "getMediatorName med' = getMediatorName med"
      "distinct (listNotificationInterests med)" "\<forall>n. subscribed (mediatorRef med) n v = 0"
  proof -
    have r: "retrieveMediator (getMediatorName med) (registerMediator med v)
        = Some (med\<lparr>mediatorKey := multitonKey v\<rparr>)"
      using h(1) by (rule registerMediator_registers)
    then have "hasMediator (getMediatorName med') (registerMediator med v)"
      using h(2) by (simp add: hasMediator_def retrieveMediator_def domIff)
    then have e: "registerMediator med' (registerMediator med v) = registerMediator med v"
      by (simp add: registerMediator_def hasMediator_def Let_def)
    have "subscribed (mediatorRef med) n (registerMediator med v)
        = (if n \<in> set (listNotificationInterests med) then 1 else 0)" for n
      using registerMediator_subscribed[OF h(1), of "mediatorRef med" n] h(4)
        count_list_distinct[OF h(3), of n] by simp
    then show ?thesis using e r by simp
  qed
  show ?thesis using 1 2 by blast
qed

theorem registerMediator_twice_witness:
  "\<not> hasMediator (getMediatorName mediatorM) game
   \<and> getMediatorName mediatorM' = getMediatorName mediatorM
   \<and> distinct (listNotificationInterests mediatorM)
   \<and> (\<forall>n. subscribed (mediatorRef mediatorM) n game = 0)
   \<and> registerMediator mediatorM' (registerMediator mediatorM game) = registerMediator mediatorM game
   \<and> retrieveMediator ''M'' (registerMediator mediatorM' (registerMediator mediatorM game))
       = Some (mediatorM\<lparr>mediatorKey := Key ''game''\<rparr>)
   \<and> subscribed (ObjectRef 7) ''GAME_OVER''
        (registerMediator mediatorM' (registerMediator mediatorM game)) = 1
   \<and> subscribed (ObjectRef 8) ''GAME_OVER''
        (registerMediator mediatorM' (registerMediator mediatorM game)) = 0
   \<and> observerMap (registerMediator mediatorM' (registerMediator mediatorM game)) ''PAUSE'' = None
   \<and> trace (fst (notifyObservers gameOver
        (registerMediator mediatorM' (registerMediator mediatorM game))))
       = [OnRegister (ObjectRef 7),
          Begin (Observer (Handler [Emit ''seen'']) (ObjectRef 7)) gameOver,
          Output ''seen'',
          End (Observer (Handler [Emit ''seen'']) (ObjectRef 7))]"
proof -
  have h: "\<not> hasMediator (getMediatorName mediatorM) game"
    "getMediatorName mediatorM' = getMediatorName mediatorM"
    "distinct (listNotificationInterests mediatorM)"
    "\<forall>n. subscribed (mediatorRef mediatorM) n game = 0"
    by (simp_all add: hasMediator_def mediatorM_def mediatorM'_def game_def subscribed_def
        Controller_init_def View_init_def view.extend_def)
  have k: "multitonKey game = Key ''game''" "getMediatorName mediatorM = ''M''"
    "mediatorRef mediatorM = ObjectRef 7" "listNotificationInterests mediatorM = [''GAME_OVER'']"
    by (simp_all add: game_def Controller_init_def View_init_def view.extend_def mediatorM_def)
  have o: "observerMap (registerMediator mediatorM game) ''GAME_OVER''
       = Some [Observer (Handler [Emit ''seen'']) (ObjectRef 7)]"
    "observerMap (registerMediator mediatorM game) ''PAUSE'' = None"
    by (simp_all add: registerMediator_def mediatorM_def game_def
        Controller_init_def View_init_def view.extend_def registerObserver_def Let_def)
  have s8: "subscribed (ObjectRef 8) ''GAME_OVER'' (registerMediator mediatorM game) = 0"
    using o(1) by (simp add: subscribed_def compareNotifyContext_def)
  have t: "trace (fst (notifyObservers gameOver (registerMediator mediatorM game)))
       = [OnRegister (ObjectRef 7),
          Begin (Observer (Handler [Emit ''seen'']) (ObjectRef 7)) gameOver,
          Output ''seen'',
          End (Observer (Handler [Emit ''seen'']) (ObjectRef 7))]"
    by (simp add: notifyObservers_def registerMediator_def mediatorM_def game_def gameOver_def
        Controller_init_def View_init_def view.extend_def registerObserver_def Let_def
        notifyObserver_def callNotifyMethod_def ended_def)
  have c: "registerMediator mediatorM' (registerMediator mediatorM game) = registerMediator mediatorM game
          \<and> retrieveMediator (getMediatorName mediatorM)
               (registerMediator mediatorM' (registerMediator mediatorM game))
              = Some (mediatorM\<lparr>mediatorKey := multitonKey game\<rparr>)
          \<and> (\<forall>n. subscribed (mediatorRef mediatorM) n
                    (registerMediator mediatorM' (registerMediator mediatorM game))
                = (if n \<in> set (listNotificationInterests mediatorM) then 1 else 0))"
    using registerMediator_twice [where med = mediatorM and med' = mediatorM' and v = game,
        THEN conjunct2] h by blast
  have e: "registerMediator mediatorM' (registerMediator mediatorM game) = registerMediator mediatorM game"
    using c by (rule conjunct1)
  have r: "retrieveMediator ''M'' (registerMediator mediatorM game)
       = Some (mediatorM\<lparr>mediatorKey := Key ''game''\<rparr>)"
    using c [THEN conjunct2, THEN conjunct1] e k by simp
  have s7: "subscribed (ObjectRef 7) ''GAME_OVER'' (registerMediator mediatorM game) = 1"
    using c [THEN conjunct2, THEN conjunct2, rule_format, of "''GAME_OVER''"] e k by simp
  show ?thesis using h e r s7 o s8 t by simp
qed

subsection \<open>Commands\<close>

lemma foldl_registerObserver_keeps:
  "\<not> compareNotifyContext obs c \<Longrightarrow>
   subscribed c n (foldl (\<lambda>w interest. registerObserver interest obs w) v ns) = subscribed c n v
   \<and> multitonKey (foldl (\<lambda>w interest. registerObserver interest obs w) v ns) = multitonKey v
   \<and> mediatorMap (foldl (\<lambda>w interest. registerObserver interest obs w) v ns) = mediatorMap v
   \<and> trace (foldl (\<lambda>w interest. registerObserver interest obs w) v ns) = trace v"
  by (induction ns arbitrary: v) (simp_all add: subscribed_registerObserver)

lemma foldl_registerObserver_commandMap:
  "commandMap (foldl (\<lambda>w interest. registerObserver interest obs w) s ns) = commandMap s"
  by (induction ns arbitrary: s) simp_all

lemma foldl_removeObserver_keeps:
  "c \<noteq> c' \<Longrightarrow>
   subscribed c n (foldl (\<lambda>w interest. removeObserver interest c' w) v ns) = subscribed c n v
   \<and> multitonKey (foldl (\<lambda>w interest. removeObserver interest c' w) v ns) = multitonKey v
   \<and> mediatorMap (foldl (\<lambda>w interest. removeObserver interest c' w) v ns) = mediatorMap v"
  by (induction ns arbitrary: v) (simp_all add: subscribed_removeObserver_other)

lemma foldl_removeObserver_commandMap:
  "commandMap (foldl (\<lambda>w interest. removeObserver interest c' w) s ns) = commandMap s"
  by (induction ns arbitrary: s) simp_all

lemma controller_inv_init: "controller_inv (Controller_init k (View_init k))"
  by (simp add: controller_inv_def Controller_init_def View_init_def view.extend_def subscribed_def)

lemma controller_inv_registerCommand:
  "controller_inv s \<Longrightarrow> controller_inv (registerCommand n c s)"
  by (auto simp: controller_inv_def registerCommand_def Let_def subscribed_registerObserver
      compareNotifyContext_def)

lemma controller_inv_removeCommand:
  "controller_inv s \<Longrightarrow> controller_inv (removeCommand n s)"
proof -
  assume a: "controller_inv s"
  show ?thesis
  proof (cases "hasCommand n s")
    case False then show ?thesis using a by (simp add: removeCommand_def)
  next
    case True
    have "\<And>n'. subscribed (ControllerRef (multitonKey s)) n' (removeObserver n (ControllerRef (multitonKey s)) s)
        = (if n' \<in> dom ((commandMap s)(n := None)) then 1 else 0)"
    proof -
      fix n'
      show "subscribed (ControllerRef (multitonKey s)) n' (removeObserver n (ControllerRef (multitonKey s)) s)
        = (if n' \<in> dom ((commandMap s)(n := None)) then 1 else 0)"
      proof (cases "n' = n")
        case True
        then show ?thesis using a by (simp add: subscribed_removeObserver_same controller_inv_def)
      next
        case False
        then show ?thesis using a by (simp add: subscribed_removeObserver_other_name controller_inv_def)
      qed
    qed
    then show ?thesis using a True by (simp add: removeCommand_def controller_inv_def Let_def)
  qed
qed

lemma controller_inv_registerObserver:
  "controller_inv s \<Longrightarrow> getNotifyContext obs \<noteq> ControllerRef (multitonKey s) \<Longrightarrow>
   controller_inv (registerObserver n obs s)"
  by (auto simp: controller_inv_def subscribed_registerObserver compareNotifyContext_def)

lemma controller_inv_removeObserver:
  "controller_inv s \<Longrightarrow> c \<noteq> ControllerRef (multitonKey s) \<Longrightarrow>
   controller_inv (removeObserver n c s)"
  using subscribed_removeObserver_other[of "ControllerRef (multitonKey s)" c _ n s]
  by (auto simp: controller_inv_def)

lemma controller_inv_registerMediator:
  assumes "controller_inv s" and "mediatorRef med \<noteq> ControllerRef (multitonKey s)"
  shows "controller_inv (registerMediator med s)"
proof (cases "getMediatorName med \<in> dom (mediatorMap s)")
  case True then show ?thesis using assms by (simp add: registerMediator_def)
next
  case False
  let ?med = "med\<lparr>mediatorKey := multitonKey s\<rparr>"
  let ?obs = "Observer (Handler (handleNotification ?med)) (mediatorRef ?med)"
  let ?s1 = "s\<lparr>mediatorMap := (mediatorMap s)(getMediatorName med \<mapsto> ?med)\<rparr>"
  have nc: "\<not> compareNotifyContext ?obs (ControllerRef (multitonKey s))"
    using assms(2) by (auto simp: compareNotifyContext_def)
  have inv1: "controller_inv ?s1" using assms by (auto simp: controller_inv_def)
  have "controller_inv (foldl (\<lambda>w interest. registerObserver interest ?obs w) ?s1 ns)" for ns
    using inv1 foldl_registerObserver_keeps[OF nc, of _ ?s1 ns] foldl_registerObserver_commandMap[of ?obs ?s1 ns]
    by (simp add: controller_inv_def)
  then show ?thesis using False inv1
    by (simp add: registerMediator_def Let_def controller_inv_def)
qed

lemma controller_inv_removeMediator:
  assumes "controller_inv s"
  shows "controller_inv (snd (removeMediator n s))"
proof (cases "mediatorMap s n")
  case None then show ?thesis using assms by (simp add: removeMediator_def)
next
  case (Some med)
  have "mediatorRef med \<noteq> ControllerRef (multitonKey s)"
    using assms Some unfolding controller_inv_def by blast
  then have ne: "ControllerRef (multitonKey s) \<noteq> mediatorRef med" by (rule not_sym)
  let ?s1 = "foldl (\<lambda>w interest. removeObserver interest (mediatorRef med) w) s (rev (listNotificationInterests med))"
  have "controller_inv ?s1"
    using assms foldl_removeObserver_keeps[OF ne, of _ s "rev (listNotificationInterests med)"]
      foldl_removeObserver_commandMap[of "mediatorRef med" s "rev (listNotificationInterests med)"]
    by (simp add: controller_inv_def)
  then show ?thesis using Some
    by (simp add: removeMediator_def Let_def controller_inv_def)
qed

lemma controller_inv_trace: "controller_inv s \<Longrightarrow> controller_inv (s\<lparr>trace := t\<rparr>)"
  by (simp add: controller_inv_def)

lemma reachable_controller_inv: "reachable s \<Longrightarrow> controller_inv s"
proof (induction rule: reachable.induct)
  case (reachable_init k) show ?case by (rule controller_inv_init)
next
  case (reachable_registerCommand s n c) then show ?case by (simp add: controller_inv_registerCommand)
next
  case (reachable_removeCommand s n) then show ?case by (simp add: controller_inv_removeCommand)
next
  case (reachable_registerObserver s obs n) then show ?case by (simp add: controller_inv_registerObserver)
next
  case (reachable_removeObserver s c n) then show ?case by (simp add: controller_inv_removeObserver)
next
  case (reachable_registerMediator s med) then show ?case by (simp add: controller_inv_registerMediator)
next
  case (reachable_removeMediator s n) then show ?case by (simp add: controller_inv_removeMediator)
next
  case (reachable_trace s t) then show ?case by (simp add: controller_inv_trace)
qed

lemma await_run: "await (run script v) = run_awaited script v"
  by (induction script v rule: run.induct) (simp_all add: await_def)

lemma run_awaited_emits:
  "run_awaited (map Emit xs @ rest) v = run_awaited rest (v\<lparr>trace := trace v @ map Output xs\<rparr>)"
  by (induction xs arbitrary: v) simp_all

lemma run_awaited_body:
  "run_awaited (body segs fl) v =
     (case fl of None \<Rightarrow> Resolved | Some e \<Rightarrow> Rejected e, v\<lparr>trace := trace v @ map Output (concat segs)\<rparr>)"
proof (induction segs fl arbitrary: v rule: body.induct)
  case (1 fl) then show ?case by (cases fl) simp_all
next
  case (2 seg fl)
  then show ?case using run_awaited_emits[of seg "case fl of None \<Rightarrow> [] | Some e \<Rightarrow> [Throw e]" v]
    by (cases fl) simp_all
next
  case (3 seg v' va fl)
  then show ?case using run_awaited_emits[of seg "Suspend # body (v' # va) fl" v] by simp
qed

lemma outcome_rejection:
  "thrown c = None \<Longrightarrow> (case rejection c of None \<Rightarrow> Resolved | Some e \<Rightarrow> Rejected e) = outcome c"
  by (auto simp: thrown_def rejection_def outcome_def split: option.splits prod.splits stage.splits)

lemma outcome_thrown: "thrown c = Some e \<Longrightarrow> outcome c = Rejected e"
  by (auto simp: thrown_def outcome_def split: option.splits prod.splits stage.splits)

lemma begun_not_thrown:
  "thrown c = None \<Longrightarrow> begun c k ntf = [Constructed c, Initialized c k, Executed c ntf]"
  by (auto simp: thrown_def begun_def split: option.splits prod.splits stage.splits)

lemma await_executeCommand:
  "commandMap s (getName ntf) = Some c \<Longrightarrow>
   await (executeCommand ntf s) = (outcome c, s\<lparr>trace := trace s @ whole c (multitonKey s) ntf\<rparr>)"
proof (cases "thrown c")
  case None
  assume "commandMap s (getName ntf) = Some c"
  then show ?thesis using None outcome_rejection[OF None]
    by (simp add: executeCommand_def Let_def await_run run_awaited_body whole_def)
next
  case (Some e)
  assume "commandMap s (getName ntf) = Some c"
  then show ?thesis using Some outcome_thrown[OF Some]
    by (simp add: executeCommand_def Let_def await_def whole_def)
qed

text \<open>
  C7. After \<open>registerCommand(N, C1)\<close> and then \<open>registerCommand(N, C2)\<close>, the view has exactly
  one observer under \<open>N\<close> whose context is the controller, \<open>N\<close> is mapped to \<open>C2\<close>, and
  \<open>executeCommand\<close> on a notification named \<open>N\<close> creates an instance of \<open>C2\<close>, binds it to
  the key of the core and executes it: awaited, it ends as \<open>C2\<close> ends, after the complete
  run of \<open>C2\<close>, which, when nothing is thrown while \<open>C2\<close> is created, bound and called, is
  the three steps and the outputs of \<open>C2\<close>.
\<close>

theorem registerCommand_twice:
  assumes "reachable s" and "getName ntf = N"
  shows "subscribed (ControllerRef (multitonKey s)) N (registerCommand N C2 (registerCommand N C1 s)) = 1
    \<and> commandMap (registerCommand N C2 (registerCommand N C1 s)) N = Some C2
    \<and> await (executeCommand ntf (registerCommand N C2 (registerCommand N C1 s)))
        = (outcome C2,
           (registerCommand N C2 (registerCommand N C1 s))
             \<lparr>trace := trace s @ whole C2 (multitonKey s) ntf\<rparr>)
    \<and> (thrown C2 = None \<longrightarrow>
          whole C2 (multitonKey s) ntf
            = [Constructed C2, Initialized C2 (multitonKey s), Executed C2 ntf]
                @ map Output (concat (segments C2)))"
proof -
  let ?s2 = "registerCommand N C2 (registerCommand N C1 s)"
  have inv: "controller_inv s" using assms(1) by (rule reachable_controller_inv)
  have 1: "subscribed (ControllerRef (multitonKey s)) N ?s2 = 1"
    using inv by (auto simp: controller_inv_def registerCommand_def Let_def
        subscribed_registerObserver compareNotifyContext_def)
  have 2: "commandMap ?s2 N = Some C2" by (simp add: registerCommand_def Let_def)
  have 3: "trace ?s2 = trace s" "multitonKey ?s2 = multitonKey s"
    by (simp_all add: registerCommand_def Let_def)
  have 4: "await (executeCommand ntf ?s2)
     = (outcome C2, ?s2\<lparr>trace := trace s @ whole C2 (multitonKey s) ntf\<rparr>)"
    using await_executeCommand[of ?s2 ntf C2] 2 3 assms(2) by simp
  have 5: "thrown C2 = None \<longrightarrow>
          whole C2 (multitonKey s) ntf
            = [Constructed C2, Initialized C2 (multitonKey s), Executed C2 ntf]
                @ map Output (concat (segments C2))"
    by (simp add: whole_def begun_not_thrown)
  show ?thesis using 1 2 4 5 by simp
qed

theorem registerCommand_twice_witness:
  "reachable game
   \<and> getName gameOver = ''GAME_OVER''
   \<and> subscribed (ControllerRef (Key ''game'')) ''GAME_OVER''
        (registerCommand ''GAME_OVER'' commandB (registerCommand ''GAME_OVER'' commandA game)) = 1
   \<and> fst (await (executeCommand gameOver
        (registerCommand ''GAME_OVER'' commandB (registerCommand ''GAME_OVER'' commandA game))))
       = Resolved
   \<and> trace (snd (await (executeCommand gameOver
        (registerCommand ''GAME_OVER'' commandB (registerCommand ''GAME_OVER'' commandA game)))))
       = [Constructed commandB, Initialized commandB (Key ''game''), Executed commandB gameOver,
          Output ''b1'', Output ''b2'']"
proof -
  have r: "reachable game" unfolding game_def by (rule reachable_init)
  have n: "getName gameOver = ''GAME_OVER''" by (simp add: gameOver_def)
  have k: "multitonKey game = Key ''game''" "trace game = []"
    by (simp_all add: game_def Controller_init_def View_init_def view.extend_def)
  have c: "outcome commandB = Resolved"
    "whole commandB (Key ''game'') gameOver
       = [Constructed commandB, Initialized commandB (Key ''game''), Executed commandB gameOver,
          Output ''b1'', Output ''b2'']"
    by (simp_all add: outcome_def whole_def begun_def thrown_def commandB_def)
  show ?thesis
    using registerCommand_twice [OF r n, of commandB commandA] r n k c by simp
qed

subsection \<open>MacroCommand\<close>

declare settle_all.simps [simp del]

lemma of_sub_append [simp]: "of_sub j (xs @ ys) = of_sub j xs @ of_sub j ys"
  by (simp add: of_sub_def)

lemma of_sub_Nil [simp]: "of_sub j [] = []"
  by (simp add: of_sub_def)

lemma of_sub_outputs [simp]: "of_sub j (outputs i seg) = (if i = j then outputs i seg else [])"
  by (induction seg) (auto simp: of_sub_def outputs_def)

lemma of_sub_instantiate [simp]:
  "of_sub j (instantiate i c k ntf) = (if i = j then instantiate i c k ntf else [])"
  by (cases "i = j") (simp_all add: of_sub_def instantiate_def filter_map comp_def)

lemma outputs_append: "outputs i (xs @ ys) = outputs i xs @ outputs i ys"
  by (simp add: outputs_def)

lemma todo_absent: "j \<notin> fst ` set tasks \<Longrightarrow> todo tasks j = []"
  by (induction tasks) auto

lemma todo_filter:
  "distinct (map fst tasks) \<Longrightarrow> todo (filter (\<lambda>t. snd t \<noteq> []) tasks) j = todo tasks j"
proof (induction tasks)
  case Nil then show ?case by simp
next
  case (Cons t tasks)
  obtain i segs where t: "t = (i, segs)" by (cases t)
  have "i \<notin> fst ` set (filter (\<lambda>t. snd t \<noteq> []) tasks)" using Cons.prems t by auto
  then have "todo (filter (\<lambda>t. snd t \<noteq> []) tasks) i = []" by (rule todo_absent)
  then show ?case using Cons t by (auto simp: outputs_def)
qed

lemma todo_update:
  "distinct (map fst ts) \<Longrightarrow> jj < length ts \<Longrightarrow>
   todo (ts[jj := (fst (ts ! jj), x)]) j
     = (if j = fst (ts ! jj) then outputs j (concat x) else todo ts j)"
proof (induction ts arbitrary: jj)
  case Nil then show ?case by simp
next
  case (Cons t ts)
  obtain i segs where t: "t = (i, segs)" by (cases t)
  show ?case
  proof (cases jj)
    case 0 then show ?thesis using t by simp
  next
    case (Suc jj')
    have "jj' < length ts" using Cons.prems Suc by simp
    then have "fst (ts ! jj') \<in> fst ` set ts" by (metis nth_mem imageI)
    moreover have "i \<notin> fst ` set ts" using Cons.prems t by simp
    ultimately have "fst (ts ! jj') \<noteq> i" by metis
    then show ?thesis using Cons t Suc by auto
  qed
qed

lemma todo_nth:
  "distinct (map fst ts) \<Longrightarrow> jj < length ts \<Longrightarrow>
   todo ts (fst (ts ! jj)) = outputs (fst (ts ! jj)) (concat (snd (ts ! jj)))"
proof (induction ts arbitrary: jj)
  case Nil then show ?case by simp
next
  case (Cons t ts)
  obtain i segs where t: "t = (i, segs)" by (cases t)
  show ?case
  proof (cases jj)
    case 0 then show ?thesis using t by simp
  next
    case (Suc jj')
    have "jj' < length ts" using Cons.prems Suc by simp
    then have "fst (ts ! jj') \<in> fst ` set ts" by (metis nth_mem imageI)
    moreover have "i \<notin> fst ` set ts" using Cons.prems t by simp
    ultimately have "fst (ts ! jj') \<noteq> i" by metis
    then show ?thesis using Cons t Suc by auto
  qed
qed

lemma map_fst_update: "jj < length ts \<Longrightarrow> map fst (ts[jj := (fst (ts ! jj), x)]) = map fst ts"
  by (simp add: map_update list_update_same_conv)

lemma settle_all_of_sub:
  "distinct (map fst tasks) \<Longrightarrow> of_sub j (settle_all sched tasks) = todo tasks j"
proof (induction sched tasks rule: settle_all.induct)
  case (1 sched tasks)
  let ?waiting = "filter (\<lambda>t. snd t \<noteq> []) tasks"
  have dw: "distinct (map fst ?waiting)" using "1.prems" by (simp add: distinct_map_filter)
  show ?case
  proof (cases "?waiting = []")
    case True
    have "todo ?waiting j = []" using True by simp
    then have "todo tasks j = []" using todo_filter[OF "1.prems", of j] by simp
    then show ?thesis using True by (subst settle_all.simps) simp
  next
    case False
    define jj where "jj = (case sched of [] \<Rightarrow> 0 | n # _ \<Rightarrow> n mod length ?waiting)"
    define i where "i = fst (?waiting ! jj)"
    define segs where "segs = snd (?waiting ! jj)"
    have jlt: "jj < length ?waiting" using False by (auto simp: jj_def split: list.splits)
    have ne: "segs \<noteq> []" using waiting_nth[OF jlt] by (simp add: segs_def)
    have upd: "?waiting[jj := (i, tl segs)] = ?waiting[jj := (fst (?waiting ! jj), tl segs)]"
      by (simp add: i_def)
    have d2: "distinct (map fst (?waiting[jj := (i, tl segs)]))"
      using dw map_fst_update[OF jlt, of "tl segs"] upd by simp
    have IH: "of_sub j (settle_all (tl sched) (?waiting[jj := (i, tl segs)]))
        = todo (?waiting[jj := (i, tl segs)]) j"
      using "1.IH"[OF refl False jj_def i_def segs_def d2] .
    have unfold: "settle_all sched tasks
        = outputs i (hd segs) @ settle_all (tl sched) (?waiting[jj := (i, tl segs)])"
      using False by (subst settle_all.simps) (simp add: Let_def jj_def i_def segs_def)
    have t1: "todo (?waiting[jj := (i, tl segs)]) j
        = (if j = i then outputs j (concat (tl segs)) else todo ?waiting j)"
      using todo_update[OF dw jlt, of "tl segs" j] upd i_def by simp
    have t2: "todo ?waiting i = outputs i (concat segs)"
      using todo_nth[OF dw jlt] by (simp add: i_def segs_def)
    have t3: "outputs i (hd segs) @ outputs i (concat (tl segs)) = outputs i (concat segs)"
      using ne by (cases segs) (simp_all add: outputs_append)
    show ?thesis
    proof (cases "j = i")
      case True
      then show ?thesis using unfold IH t1 t2 t3 todo_filter[OF "1.prems", of j] by simp
    next
      case False
      then show ?thesis using unfold IH t1 todo_filter[OF "1.prems", of j] by simp
    qed
  qed
qed

lemma start_all_of_sub:
  "\<forall>c\<in>set cs. thrown c = None \<Longrightarrow> start_all i cs k ntf = (evs, tasks, err) \<Longrightarrow>
   err = None
   \<and> map fst tasks = [i..<i + length cs]
   \<and> of_sub j evs @ todo tasks j
       = (if i \<le> j \<and> j < i + length cs then whole_run j (cs ! (j - i)) k ntf else [])"
proof (induction cs arbitrary: i evs tasks err)
  case Nil then show ?case by auto
next
  case (Cons c cs)
  have c: "thrown c = None" and cs: "\<forall>c\<in>set cs. thrown c = None" using Cons.prems(1) by simp_all
  obtain evs' tasks' err' where r: "start_all (Suc i) cs k ntf = (evs', tasks', err')"
    by (cases "start_all (Suc i) cs k ntf") auto
  have IH: "err' = None" "map fst tasks' = [Suc i..<Suc i + length cs]"
    "of_sub j evs' @ todo tasks' j
       = (if Suc i \<le> j \<and> j < Suc i + length cs then whole_run j (cs ! (j - Suc i)) k ntf else [])"
    using Cons.IH[OF cs r] by simp_all
  have evs: "evs = instantiate i c k ntf
            @ outputs i (case segments c of [] \<Rightarrow> [] | seg # _ \<Rightarrow> seg) @ evs'"
    and tasks: "tasks = (i, case segments c of [] \<Rightarrow> [] | _ # segs \<Rightarrow> segs) # tasks'"
    and err: "err = err'"
    using Cons.prems(2) r c by simp_all
  have u: "[i..<i + length (c # cs)] = i # [Suc i..<Suc i + length cs]"
    using upt_conv_Cons[of i "Suc i + length cs"] by (simp del: upt_Suc)
  have m: "map fst tasks = [i..<i + length (c # cs)]"
    unfolding u tasks using IH(2) by simp
  have 3: "of_sub j evs @ todo tasks j
       = (if i \<le> j \<and> j < i + length (c # cs) then whole_run j ((c # cs) ! (j - i)) k ntf else [])"
  proof (cases "j = i")
    case True
    have e: "of_sub i evs' = []" "todo tasks' i = []" using IH(3) True by simp_all
    have "outputs i (case segments c of [] \<Rightarrow> [] | seg # _ \<Rightarrow> seg)
          @ outputs i (concat (case segments c of [] \<Rightarrow> [] | _ # segs \<Rightarrow> segs))
          = outputs i (concat (segments c))"
      by (cases "segments c") (simp_all add: outputs_append outputs_def)
    then show ?thesis using True evs tasks e c by (simp add: whole_run_def)
  next
    case False
    have "(c # cs) ! (j - i) = cs ! (j - Suc i)" if "i < j" using that by (simp add: nth_Cons')
    then show ?thesis using False evs tasks IH(3) by auto
  qed
  show ?case using IH(1) err m 3 by simp
qed

text \<open>
  When the sub-commands before one throw nothing and that one throws while it is created,
  bound or called, \<open>map\<close> has started the sub-commands before it and ends with its error.
\<close>

lemma start_all_throw:
  "\<forall>c\<in>set pre. thrown c = None \<Longrightarrow> thrown a = Some e \<Longrightarrow>
   start_all i pre k ntf = (evs, tasks, err) \<Longrightarrow>
   start_all i (pre @ a # post) k ntf
     = (evs @ instantiate (i + length pre) a k ntf, tasks, Some e)"
proof (induction pre arbitrary: i evs tasks err)
  case Nil then show ?case by simp
next
  case (Cons c pre)
  have c: "thrown c = None" and p: "\<forall>c\<in>set pre. thrown c = None" using Cons.prems(1) by simp_all
  obtain evs' tasks' err' where r: "start_all (Suc i) pre k ntf = (evs', tasks', err')"
    by (cases "start_all (Suc i) pre k ntf") auto
  have "start_all (Suc i) (pre @ a # post) k ntf
      = (evs' @ instantiate (Suc i + length pre) a k ntf, tasks', Some e)"
    using Cons.IH[OF p Cons.prems(2) r] .
  then show ?case using Cons.prems(3) r c by auto
qed

lemma execute_parallel:
  assumes "\<not> sequentialExecution m" and "\<forall>c\<in>set (subCommands m). thrown c = None"
  shows "fst (execute sched ntf m) = Resolved"
    and "i < length (subCommands m) \<Longrightarrow>
         of_sub i (snd (execute sched ntf m)) = whole_run i (subCommands m ! i) (macroKey m) ntf"
proof -
  obtain evs tasks err where r: "start_all 0 (subCommands m) (macroKey m) ntf = (evs, tasks, err)"
    by (cases "start_all 0 (subCommands m) (macroKey m) ntf") auto
  have s: "err = None" "map fst tasks = [0..<0 + length (subCommands m)]"
    "of_sub i evs @ todo tasks i
       = (if 0 \<le> i \<and> i < 0 + length (subCommands m)
          then whole_run i (subCommands m ! (i - 0)) (macroKey m) ntf else [])"
    using start_all_of_sub[OF assms(2) r, of i] by simp_all
  have e: "execute sched ntf m = (Resolved, evs @ settle_all sched tasks)"
    using assms(1) r s(1) by (simp add: execute_def allSettled_def)
  show "fst (execute sched ntf m) = Resolved" using e by simp
  have d: "distinct (map fst tasks)" using s(2) by simp
  show "of_sub i (snd (execute sched ntf m)) = whole_run i (subCommands m ! i) (macroKey m) ntf"
    if "i < length (subCommands m)"
    using e s(3) that settle_all_of_sub[OF d, of i sched] by simp
qed

lemma of_sub_member: "ev \<in> set evs \<Longrightarrow> of_sub (fst ev) evs \<noteq> []"
  by (auto simp: of_sub_def filter_empty_conv)

text \<open>
  Parallel mode, when a sub-command throws while it is created, bound or called, those
  before it throwing nothing: \<open>execute\<close> rejects with its error, the sub-commands before it
  run to their ends all the same, and no sub-command after it is created.
\<close>

lemma execute_parallel_throws:
  assumes "\<not> sequentialExecution m" and "subCommands m = pre @ a # post"
    and "\<forall>c\<in>set pre. thrown c = None" and "thrown a = Some e"
  shows "fst (execute sched ntf m) = Rejected e"
    and "i < length pre \<Longrightarrow>
         of_sub i (snd (execute sched ntf m)) = whole_run i (pre ! i) (macroKey m) ntf"
    and "of_sub (length pre) (snd (execute sched ntf m)) = whole_run (length pre) a (macroKey m) ntf"
    and "\<forall>ev\<in>set (snd (execute sched ntf m)). fst ev \<le> length pre"
proof -
  obtain evs tasks err where r: "start_all 0 pre (macroKey m) ntf = (evs, tasks, err)"
    by (cases "start_all 0 pre (macroKey m) ntf") auto
  have s: "map fst tasks = [0..<0 + length pre]"
    "of_sub j evs @ todo tasks j
       = (if 0 \<le> j \<and> j < 0 + length pre then whole_run j (pre ! (j - 0)) (macroKey m) ntf else [])"
    for j
    using start_all_of_sub[OF assms(3) r, of j] by simp_all
  have t: "start_all 0 (subCommands m) (macroKey m) ntf
      = (evs @ instantiate (length pre) a (macroKey m) ntf, tasks, Some e)"
    using start_all_throw[OF assms(3) assms(4) r, of post] assms(2) by simp
  have x: "execute sched ntf m
      = (Rejected e, evs @ instantiate (length pre) a (macroKey m) ntf @ settle_all sched tasks)"
    using assms(1) t by (simp add: execute_def)
  have d: "distinct (map fst tasks)" using s(1) by simp
  have o: "of_sub j (snd (execute sched ntf m))
      = of_sub j evs
        @ (if length pre = j then instantiate (length pre) a (macroKey m) ntf else [])
        @ todo tasks j" for j
    using x settle_all_of_sub[OF d, of j sched] by simp
  show "fst (execute sched ntf m) = Rejected e" using x by simp
  show "of_sub i (snd (execute sched ntf m)) = whole_run i (pre ! i) (macroKey m) ntf"
    if "i < length pre"
    using o[of i] s(2)[of i] that by simp
  have z: "of_sub j evs = []" "todo tasks j = []" if "length pre \<le> j" for j
    using s(2)[of j] that by simp_all
  show "of_sub (length pre) (snd (execute sched ntf m)) = whole_run (length pre) a (macroKey m) ntf"
    using o[of "length pre"] z[of "length pre"] assms(4) by (simp add: whole_run_def)
  show "\<forall>ev\<in>set (snd (execute sched ntf m)). fst ev \<le> length pre"
  proof
    fix ev assume "ev \<in> set (snd (execute sched ntf m))"
    then have n: "of_sub (fst ev) (snd (execute sched ntf m)) \<noteq> []" by (rule of_sub_member)
    show "fst ev \<le> length pre"
    proof (rule ccontr)
      assume "\<not> fst ev \<le> length pre"
      then have "length pre < fst ev" by simp
      then have "of_sub (fst ev) (snd (execute sched ntf m)) = []"
        using o[of "fst ev"] z[of "fst ev"] by simp
      then show False using n by simp
    qed
  qed
qed

lemma not_failing: "failure c = None \<Longrightarrow> thrown c = None \<and> rejection c = None"
  by (simp add: thrown_def rejection_def)

lemma execute_loop_succeed:
  "\<forall>c\<in>set cs. failure c = None \<Longrightarrow> execute_loop i cs k ntf = (Resolved, in_series i cs k ntf)"
  by (induction cs arbitrary: i) (simp_all add: whole_run_def not_failing)

lemma execute_loop_fail:
  "\<forall>c\<in>set pre. failure c = None \<Longrightarrow> failure a = Some (st, e) \<Longrightarrow>
   execute_loop i (pre @ a # post) k ntf = (Rejected e, in_series i (pre @ [a]) k ntf)"
proof (induction pre arbitrary: i)
  case Nil
  then show ?case by (cases st) (simp_all add: whole_run_def thrown_def rejection_def)
next
  case (Cons c pre)
  then show ?case by (simp add: whole_run_def not_failing)
qed

lemma in_series_indices: "ev \<in> set (in_series i cs k ntf) \<Longrightarrow> i \<le> fst ev \<and> fst ev < i + length cs"
  by (induction cs arbitrary: i)
    (fastforce simp: whole_run_def instantiate_def outputs_def split: option.splits)+

text \<open>
  C1, as the code has it. In parallel mode, when no sub-command throws while it is
  created, bound or called (a sub-command that fails rejects the promise its \<open>execute\<close>
  returns), then, whatever the order in which the suspended sub-commands resume, every
  sub-command is created, bound to the key, and runs all its segments, whether it or
  another sub-command fails; and \<open>execute\<close> resolves, whatever the sub-commands did.
\<close>

theorem parallel_execute_settles_all:
  "\<not> sequentialExecution m \<Longrightarrow> \<forall>c\<in>set (subCommands m). thrown c = None \<Longrightarrow>
     fst (execute sched ntf m) = Resolved
     \<and> (\<forall>i<length (subCommands m).
          of_sub i (snd (execute sched ntf m))
            = whole_run i (subCommands m ! i) (macroKey m) ntf
          \<and> whole_run i (subCommands m ! i) (macroKey m) ntf
            = instantiate i (subCommands m ! i) (macroKey m) ntf
                @ outputs i (concat (segments (subCommands m ! i))))"
proof -
  assume p: "\<not> sequentialExecution m" and t: "\<forall>c\<in>set (subCommands m). thrown c = None"
  have "whole_run i (subCommands m ! i) (macroKey m) ntf
            = instantiate i (subCommands m ! i) (macroKey m) ntf
                @ outputs i (concat (segments (subCommands m ! i)))"
    if "i < length (subCommands m)" for i
    using t that by (simp add: whole_run_def)
  then show ?thesis
    using execute_parallel [OF p t, where sched = sched and ntf = ntf] by blast
qed

theorem parallel_execute_settles_all_witness:
  "\<not> sequentialExecution parallelAB
   \<and> subCommands parallelAB = [commandA, commandB]
   \<and> failure commandA = Some (InBody, ''boom'')
   \<and> thrown commandA = None
   \<and> thrown commandB = None
   \<and> fst (execute [1, 0] gameOver parallelAB) = Resolved
   \<and> of_sub 0 (snd (execute [1, 0] gameOver parallelAB))
       = [(0, Constructed commandA), (0, Initialized commandA (Key ''game'')),
          (0, Executed commandA gameOver), (0, Output ''a1''), (0, Output ''a2'')]
   \<and> of_sub 1 (snd (execute [1, 0] gameOver parallelAB))
       = [(1, Constructed commandB), (1, Initialized commandB (Key ''game'')),
          (1, Executed commandB gameOver), (1, Output ''b1''), (1, Output ''b2'')]"
proof -
  have p: "\<not> sequentialExecution parallelAB" "subCommands parallelAB = [commandA, commandB]"
    "macroKey parallelAB = Key ''game''"
    by (simp_all add: parallelAB_def MacroCommand_initializeNotifier_def addSubCommand_def
        MacroCommand_new_def)
  have f: "failure commandA = Some (InBody, ''boom'')" "thrown commandA = None"
    "thrown commandB = None"
    by (simp_all add: thrown_def commandA_def commandB_def)
  have t: "\<forall>c\<in>set (subCommands parallelAB). thrown c = None" using p(2) f by simp
  have w: "whole_run 0 commandA (Key ''game'') gameOver
       = [(0, Constructed commandA), (0, Initialized commandA (Key ''game'')),
          (0, Executed commandA gameOver), (0, Output ''a1''), (0, Output ''a2'')]"
    "whole_run 1 commandB (Key ''game'') gameOver
       = [(1, Constructed commandB), (1, Initialized commandB (Key ''game'')),
          (1, Executed commandB gameOver), (1, Output ''b1''), (1, Output ''b2'')]"
    using f by (simp_all add: whole_run_def instantiate_def begun_def outputs_def commandA_def
        commandB_def)
  show ?thesis
    using parallel_execute_settles_all [OF p(1) t, of "[1, 0]" gameOver] p f w by simp
qed

text \<open>
  C1 as stated fails, in two ways. With the two sub-commands \<open>A\<close> and \<open>B\<close> of the example,
  \<open>A\<close> rejecting its promise with \<open>boom\<close> at its end, both run to their ends and \<open>execute\<close>
  resolves: nothing in what it returns tells that a sub-command failed. With \<open>T\<close>, whose
  constructor throws \<open>bad\<close>, and \<open>B\<close> after it, \<open>execute\<close> rejects with \<open>bad\<close> and \<open>B\<close> is not
  created.
\<close>

theorem parallel_failure_not_surfaced:
  "subCommands parallelAB = [commandA, commandB]
   \<and> \<not> sequentialExecution parallelAB
   \<and> failure commandA = Some (InBody, ''boom'')
   \<and> failure commandB = None
   \<and> execute [] gameOver parallelAB
       = (Resolved,
          [(0, Constructed commandA), (0, Initialized commandA (Key ''game'')),
           (0, Executed commandA gameOver), (0, Output ''a1''),
           (1, Constructed commandB), (1, Initialized commandB (Key ''game'')),
           (1, Executed commandB gameOver), (1, Output ''b1''),
           (0, Output ''a2''), (1, Output ''b2'')])
   \<and> subCommands parallelTB = [commandT, commandB]
   \<and> \<not> sequentialExecution parallelTB
   \<and> failure commandT = Some (InConstructor, ''bad'')
   \<and> execute [] gameOver parallelTB = (Rejected ''bad'', [])"
  by (simp add: parallelAB_def parallelTB_def MacroCommand_initializeNotifier_def
      addSubCommand_def MacroCommand_new_def execute_def allSettled_def settle_all.simps
      instantiate_def begun_def thrown_def outputs_def commandA_def commandB_def commandT_def
      Let_def)

text \<open>
  C8. In sequential mode the sub-commands run one after the other, each to its end before
  the next is created. When all succeed, \<open>execute\<close> resolves after the last. When a
  sub-command fails, wherever its error is thrown, those before it having succeeded,
  \<open>execute\<close> rejects with its error after the runs of the sub-commands up to it, and no
  sub-command after it is created, bound or executed.
\<close>

theorem sequential_execute_fails_fast:
  "sequentialExecution m \<Longrightarrow>
     ((\<forall>c\<in>set (subCommands m). failure c = None) \<longrightarrow>
        execute sched ntf m = (Resolved, in_series 0 (subCommands m) (macroKey m) ntf))
     \<and> (\<forall>pre a post st e.
          subCommands m = pre @ a # post \<and> (\<forall>c\<in>set pre. failure c = None)
          \<and> failure a = Some (st, e)
          \<longrightarrow> execute sched ntf m = (Rejected e, in_series 0 (pre @ [a]) (macroKey m) ntf)
              \<and> (\<forall>ev\<in>set (snd (execute sched ntf m)). fst ev \<le> length pre))"
proof -
  assume s: "sequentialExecution m"
  have e: "execute sched ntf m = execute_loop 0 (subCommands m) (macroKey m) ntf"
    using s by (simp add: execute_def)
  have 1: "(\<forall>c\<in>set (subCommands m). failure c = None) \<longrightarrow>
        execute sched ntf m = (Resolved, in_series 0 (subCommands m) (macroKey m) ntf)"
    using e by (simp add: execute_loop_succeed)
  have 2: "execute sched ntf m = (Rejected x, in_series 0 (pre @ [a]) (macroKey m) ntf)
              \<and> (\<forall>ev\<in>set (snd (execute sched ntf m)). fst ev \<le> length pre)"
    if h: "subCommands m = pre @ a # post" "\<forall>c\<in>set pre. failure c = None"
      "failure a = Some (st, x)"
    for pre a post st x
  proof -
    have r: "execute sched ntf m = (Rejected x, in_series 0 (pre @ [a]) (macroKey m) ntf)"
      using e h by (simp add: execute_loop_fail)
    have "fst ev \<le> length pre" if "ev \<in> set (in_series 0 (pre @ [a]) (macroKey m) ntf)" for ev
      using in_series_indices[OF that] by simp
    then show ?thesis using r by simp
  qed
  show ?thesis using 1 2 by blast
qed

theorem sequential_execute_fails_fast_witness:
  "sequentialExecution sequentialAB
   \<and> subCommands sequentialAB = [] @ commandA # [commandB]
   \<and> failure commandA = Some (InBody, ''boom'')
   \<and> execute [] gameOver sequentialAB
       = (Rejected ''boom'',
          [(0, Constructed commandA), (0, Initialized commandA (Key ''game'')),
           (0, Executed commandA gameOver), (0, Output ''a1''), (0, Output ''a2'')])"
proof -
  have p: "sequentialExecution sequentialAB" "subCommands sequentialAB = [] @ commandA # [commandB]"
    "macroKey sequentialAB = Key ''game''"
    by (simp_all add: sequentialAB_def MacroCommand_initializeNotifier_def addSubCommand_def
        MacroCommand_new_def)
  have f: "failure commandA = Some (InBody, ''boom'')" by (simp add: commandA_def)
  have w: "in_series 0 ([] @ [commandA]) (Key ''game'') gameOver
       = [(0, Constructed commandA), (0, Initialized commandA (Key ''game'')),
          (0, Executed commandA gameOver), (0, Output ''a1''), (0, Output ''a2'')]"
    by (simp add: whole_run_def instantiate_def begun_def thrown_def outputs_def commandA_def)
  have "execute [] gameOver sequentialAB
       = (Rejected ''boom'', in_series 0 ([] @ [commandA]) (macroKey sequentialAB) gameOver)"
    using sequential_execute_fails_fast [OF p(1), of "[]" gameOver, THEN conjunct2, rule_format,
        of "[]" commandA "[commandB]" InBody "''boom''"] p(2) f
    by simp
  then show ?thesis using p f w by simp
qed

end
